theory Spec2Isabelle
  imports Complex_Main
begin

section \<open>Results and errors\<close>

text \<open>
  The resolver of \<^verbatim>\<open>resolver.go\<close> reports a failure as \<^verbatim>\<open>errors.New(prefix + val)\<close>.
  Each constructor below stands for one message prefix of the source and carries the
  text that the source appends to it:
  \<^item> \<open>Invalid_boolean\<close>: \<^verbatim>\<open>"Invalid boolean: "\<close>
  \<^item> \<open>Integer_error\<close>: \<^verbatim>\<open>"Integer: "\<close>
  \<^item> \<open>Unsigned_negative\<close>: \<^verbatim>\<open>"Unsigned int with negative value: "\<close>
  \<^item> \<open>Unsigned_Integer_error\<close>: \<^verbatim>\<open>"Unsigned Integer: "\<close>
  \<^item> \<open>Float_error\<close>: \<^verbatim>\<open>"Float: "\<close>
  \<^item> \<open>Unexpected_timestamp\<close>: \<^verbatim>\<open>"Unexpected timestamp: "\<close>
  \<^item> \<open>Cannot_resolve_into\<close>: \<^verbatim>\<open>"Cannot resolve into "\<close> (a slice that is not a byte slice)
  \<^item> \<open>Resolve_failed_for\<close>: \<^verbatim>\<open>"Resolve failed for "\<close> (a kind without a converter)
  \<^item> \<open>Base64_error\<close>: the error of \<^verbatim>\<open>base64.StdEncoding.Decode\<close>.

  A run-time panic of Go (an index out of range, a \<^verbatim>\<open>reflect\<close> misuse) is the third
  outcome \<open>Panic\<close>: it is neither a value nor an error return.
\<close>

datatype error =
    Invalid_boolean string
  | Integer_error string
  | Unsigned_negative string
  | Unsigned_Integer_error string
  | Float_error string
  | Unexpected_timestamp string
  | Cannot_resolve_into
  | Resolve_failed_for
  | Base64_error

datatype 'a result = Ok 'a | Err error | Panic

section \<open>The Go library functions that the resolver calls\<close>

subsection \<open>Package strings\<close>

text \<open>
  A Go string is a sequence of bytes; \<^typ>\<open>string\<close> is a list of 8-bit characters.
  \<^verbatim>\<open>strings.Replace(val, "_", "", -1)\<close> deletes every underscore.
\<close>

definition Replace_underscores :: "string \<Rightarrow> string" where
  "Replace_underscores s = filter (\<lambda>c. c \<noteq> CHR ''_'') s"

definition HasPrefix :: "string \<Rightarrow> string \<Rightarrow> bool" where
  "HasPrefix s p = (take (length p) s = p)"

definition Contains :: "string \<Rightarrow> char \<Rightarrow> bool" where
  "Contains s c = (c \<in> set s)"

text \<open>
  \<^verbatim>\<open>strings.Split(s, ":")\<close>: the pieces between the separators, one more than
  there are separators.
\<close>

fun Split :: "string \<Rightarrow> char \<Rightarrow> string list" where
  "Split [] sep = [[]]"
| "Split (c # cs) sep =
     (if c = sep then [] # Split cs sep
      else (case Split cs sep of [] \<Rightarrow> [[c]] | g # gs \<Rightarrow> (c # g) # gs))"

text \<open>
  \<^verbatim>\<open>strings.ToLower\<close> maps every code point of the UTF-8 text to its Unicode lower
  case. The resolver only compares the result with ASCII literals, and exactly two
  code points outside ASCII have an ASCII lower case: U+0130 (bytes C4 B0) becomes
  \<open>i\<close> and U+212A (bytes E2 84 AA) becomes \<open>k\<close>. The model maps the ASCII capitals and
  these two sequences; every other byte outside ASCII stays outside ASCII, as it does
  in Go, and is left in place.
\<close>

definition lower_byte :: "char \<Rightarrow> char" where
  "lower_byte c =
     (let n = (of_char c :: nat) in if 65 \<le> n \<and> n \<le> 90 then char_of (n + 32) else c)"

fun ToLower :: "string \<Rightarrow> string" where
  "ToLower [] = []"
| "ToLower (c # cs) =
     (if c = CHR 0xC4 \<and> take 1 cs = [CHR 0xB0]
        then CHR ''i'' # ToLower (drop 1 cs)
      else if c = CHR 0xE2 \<and> take 2 cs = [CHR 0x84, CHR 0xAA]
        then CHR ''k'' # ToLower (drop 2 cs)
      else lower_byte c # ToLower cs)"

subsection \<open>Package strconv: integers\<close>

text \<open>
  \<^verbatim>\<open>strconv.ParseUint(s, base, 64)\<close> for a base between 2 and 36. A digit is
  \<open>0-9\<close>, \<open>a-z\<close> or \<open>A-Z\<close>; a character that is no digit of the base is a syntax
  error with value 0; a value beyond \<open>2^64 - 1\<close> is a range error with the value
  \<open>2^64 - 1\<close>, returned at the digit that overflows.
\<close>

datatype num_error = ErrSyntax | ErrRange

definition maxUint64 :: nat where
  "maxUint64 = 2 ^ 64 - 1"

definition digit_val :: "char \<Rightarrow> nat option" where
  "digit_val c =
     (let n = (of_char c :: nat) in
      if 48 \<le> n \<and> n \<le> 57 then Some (n - 48)
      else if 97 \<le> n \<and> n \<le> 122 then Some (n - 97 + 10)
      else if 65 \<le> n \<and> n \<le> 90 then Some (n - 65 + 10)
      else None)"

fun ParseUint_loop :: "nat \<Rightarrow> nat \<Rightarrow> string \<Rightarrow> nat \<times> num_error option" where
  "ParseUint_loop base n [] = (n, None)"
| "ParseUint_loop base n (c # cs) =
     (case digit_val c of
        None \<Rightarrow> (0, Some ErrSyntax)
      | Some d \<Rightarrow>
          if d \<ge> base then (0, Some ErrSyntax)
          else if n \<ge> maxUint64 div base + 1 then (maxUint64, Some ErrRange)
          else if n * base + d > maxUint64 then (maxUint64, Some ErrRange)
          else ParseUint_loop base (n * base + d) cs)"

definition ParseUint :: "string \<Rightarrow> nat \<Rightarrow> nat \<times> num_error option" where
  "ParseUint s base = (if s = [] then (0, Some ErrSyntax) else ParseUint_loop base 0 s)"

text \<open>
  \<^verbatim>\<open>strconv.ParseInt(s, base, 64)\<close>: an optional sign, then \<^verbatim>\<open>ParseUint\<close>; a
  magnitude beyond the signed range is a range error with the nearest bound.
\<close>

definition ParseInt :: "string \<Rightarrow> nat \<Rightarrow> int \<times> num_error option" where
  "ParseInt s base =
     (if s = [] then (0, Some ErrSyntax)
      else
        let neg = (hd s = CHR ''-'');
            s1 = (if hd s = CHR ''+'' \<or> hd s = CHR ''-'' then tl s else s);
            (un, err) = ParseUint s1 base
        in if err = Some ErrSyntax then (0, err)
           else if \<not> neg \<and> un \<ge> 2 ^ 63 then (2 ^ 63 - 1, Some ErrRange)
           else if neg \<and> un > 2 ^ 63 then (- (2 ^ 63), Some ErrRange)
           else (if neg then - int un else int un, None))"

text \<open>
  \<^verbatim>\<open>strconv.Atoi(s)\<close> is \<^verbatim>\<open>ParseInt(s, 10, 0)\<close> converted to \<^verbatim>\<open>int\<close>, which has
  64 bits on the platforms modelled here. The resolver drops its error.
\<close>

definition Atoi :: "string \<Rightarrow> int" where
  "Atoi s = fst (ParseInt s 10)"

subsection \<open>Machine integers and package reflect\<close>

text \<open>
  \<^verbatim>\<open>int64\<close> arithmetic wraps modulo \<open>2^64\<close>; \<open>swrap w\<close> reads the low \<open>w\<close> bits of an
  integer as a signed number. \<^verbatim>\<open>Value.OverflowInt(x)\<close> tells whether \<open>x\<close> changes
  when it is cut to the width of the target, and \<^verbatim>\<open>Value.SetInt(x)\<close> stores \<open>x\<close>
  cut to that width; likewise for the unsigned kinds.
\<close>

definition swrap :: "nat \<Rightarrow> int \<Rightarrow> int" where
  "swrap w x = (x + 2 ^ (w - 1)) mod 2 ^ w - 2 ^ (w - 1)"

definition wrap64 :: "int \<Rightarrow> int" where
  "wrap64 x = swrap 64 x"

definition uwrap64 :: "nat \<Rightarrow> nat" where
  "uwrap64 x = x mod 2 ^ 64"

definition OverflowInt :: "nat \<Rightarrow> int \<Rightarrow> bool" where
  "OverflowInt bits x = (x \<noteq> swrap bits x)"

definition SetInt :: "nat \<Rightarrow> int \<Rightarrow> int" where
  "SetInt bits x = swrap bits x"

definition OverflowUint :: "nat \<Rightarrow> nat \<Rightarrow> bool" where
  "OverflowUint bits x = (x \<noteq> x mod 2 ^ bits)"

definition SetUint :: "nat \<Rightarrow> nat \<Rightarrow> nat" where
  "SetUint bits x = x mod 2 ^ bits"

section \<open>The vocabularies of \<^verbatim>\<open>init\<close>\<close>

definition bool_values :: "string \<rightharpoonup> bool" where
  "bool_values =
     [''y'' \<mapsto> True, ''yes'' \<mapsto> True, ''n'' \<mapsto> False, ''no'' \<mapsto> False,
      ''true'' \<mapsto> True, ''false'' \<mapsto> False, ''on'' \<mapsto> True, ''off'' \<mapsto> False]"

text \<open>
  \<^verbatim>\<open>null_values\<close> is a \<^verbatim>\<open>map[string]bool\<close> read with \<^verbatim>\<open>null_values[val]\<close>: a missing
  key reads as \<^verbatim>\<open>false\<close>, and every key present holds \<^verbatim>\<open>true\<close>.
\<close>

definition null_values :: "string \<Rightarrow> bool" where
  "null_values val = (val \<in> {''~'', ''null'', ''Null'', ''NULL'', ''''})"

definition signs :: "char list" where
  "signs = [CHR ''-'', CHR ''+'']"

definition nulls :: "char list" where
  "nulls = [CHR ''~'', CHR ''n'', CHR ''N'']"

definition bools :: "char list" where
  "bools = [CHR ''t'', CHR ''T'', CHR ''f'', CHR ''F'', CHR ''y'', CHR ''Y'',
            CHR ''n'', CHR ''N'', CHR ''o'', CHR ''O'']"

section \<open>The converters\<close>

subsection \<open>\<^verbatim>\<open>resolve_bool\<close>\<close>

definition resolve_bool :: "string \<Rightarrow> bool result" where
  "resolve_bool val =
     (case bool_values (ToLower val) of
        None \<Rightarrow> Err (Invalid_boolean val)
      | Some b \<Rightarrow> Ok b)"

subsection \<open>\<^verbatim>\<open>resolve_int\<close>\<close>

text \<open>
  The target is given by its width \<open>bits\<close> (8, 16, 32 or 64). \<^verbatim>\<open>val[0]\<close> on an empty
  string panics. The loop over the sexagesimal groups runs from the last group to the
  first, so it takes the groups reversed; \<open>None\<close> is its error return.
\<close>

definition finish_int :: "string \<Rightarrow> nat \<Rightarrow> int \<Rightarrow> nat \<Rightarrow> int result" where
  "finish_int val base sign bits =
     (let (p, err) = ParseInt val base;
          v = wrap64 (p * sign)
      in if err \<noteq> None \<or> OverflowInt bits v then Err (Integer_error val)
         else Ok (SetInt bits v))"

fun sexagesimal_int :: "nat \<Rightarrow> string list \<Rightarrow> int \<Rightarrow> int \<Rightarrow> int option" where
  "sexagesimal_int bits [] v bes = Some v"
| "sexagesimal_int bits (d # ds) v bes =
     (let (p, err) = ParseInt d 10;
          n = wrap64 (p * bes)
      in if err \<noteq> None \<or> OverflowInt bits n then None
         else sexagesimal_int bits ds (wrap64 (v + n)) (wrap64 (bes * 60)))"

text \<open>
  \<open>int_body\<close> is the part of \<^verbatim>\<open>resolve_int\<close> that follows the sign: from
  \<^verbatim>\<open>base := 10\<close> to the end of the function.
\<close>

definition int_body :: "string \<Rightarrow> int \<Rightarrow> nat \<Rightarrow> int result" where
  "int_body val sign bits =
     (if val = ''0'' then Ok 0
      else if HasPrefix val ''0b'' then finish_int (drop 2 val) 2 sign bits
      else if HasPrefix val ''0x'' then finish_int (drop 2 val) 16 sign bits
      else if val = [] then Panic
      else if hd val = CHR ''0'' then finish_int (tl val) 8 sign bits
      else if Contains val CHR '':'' then
        (case sexagesimal_int bits (rev (Split val CHR '':'')) 0 1 of
           None \<Rightarrow> Err (Integer_error val)
         | Some v \<Rightarrow> Ok (SetInt bits (wrap64 (v * sign))))
      else finish_int val 10 sign bits)"

definition resolve_int :: "string \<Rightarrow> nat \<Rightarrow> int result" where
  "resolve_int val0 bits =
     (let val = Replace_underscores val0 in
      if val = [] then Panic
      else if hd val = CHR ''-'' then int_body (tl val) (- 1) bits
      else if hd val = CHR ''+'' then int_body (tl val) 1 bits
      else int_body val 1 bits)"

subsection \<open>\<^verbatim>\<open>resolve_uint\<close>\<close>

definition finish_uint :: "string \<Rightarrow> nat \<Rightarrow> nat \<Rightarrow> nat result" where
  "finish_uint val base bits =
     (let (v, err) = ParseUint val base
      in if err \<noteq> None \<or> OverflowUint bits v then Err (Unsigned_Integer_error val)
         else Ok (SetUint bits v))"

fun sexagesimal_uint :: "nat \<Rightarrow> string list \<Rightarrow> nat \<Rightarrow> nat \<Rightarrow> nat option" where
  "sexagesimal_uint bits [] v bes = Some v"
| "sexagesimal_uint bits (d # ds) v bes =
     (let (p, err) = ParseUint d 10;
          n = uwrap64 (p * bes)
      in if err \<noteq> None \<or> OverflowUint bits n then None
         else sexagesimal_uint bits ds (uwrap64 (v + n)) (uwrap64 (bes * 60)))"

definition uint_body :: "string \<Rightarrow> nat \<Rightarrow> nat result" where
  "uint_body val bits =
     (if val = ''0'' then Ok 0
      else if HasPrefix val ''0b'' then finish_uint (drop 2 val) 2 bits
      else if HasPrefix val ''0x'' then finish_uint (drop 2 val) 16 bits
      else if val = [] then Panic
      else if hd val = CHR ''0'' then finish_uint (tl val) 8 bits
      else if Contains val CHR '':'' then
        (case sexagesimal_uint bits (rev (Split val CHR '':'')) 0 1 of
           None \<Rightarrow> Err (Unsigned_Integer_error val)
         | Some v \<Rightarrow> Ok (SetUint bits v))
      else finish_uint val 10 bits)"

definition resolve_uint :: "string \<Rightarrow> nat \<Rightarrow> nat result" where
  "resolve_uint val0 bits =
     (let val = Replace_underscores val0 in
      if val = [] then Panic
      else if hd val = CHR ''-'' then Err (Unsigned_negative val)
      else if hd val = CHR ''+'' then uint_body (tl val) bits
      else uint_body val bits)"

subsection \<open>Floating point\<close>

text \<open>
  A \<^verbatim>\<open>float64\<close> is a signed finite number, a signed infinity or a NaN. The finite
  number \<open>Finite neg m e\<close> is \<open>m * 2^e\<close> with the sign \<open>neg\<close>, kept with an odd \<open>m\<close>
  (or as \<open>Finite neg 0 0\<close>, the zero of that sign). Every operation rounds its exact result
  to the nearest value of the format, ties to even (IEEE 754 binary64: 53 bits of
  precision, largest exponent 1023; binary32: 24 bits, largest exponent 127).
\<close>

datatype float = Finite bool nat int | Infinity bool | NaN

fun bitlen :: "nat \<Rightarrow> nat" where
  "bitlen n = (if n = 0 then 0 else Suc (bitlen (n div 2)))"

declare bitlen.simps [simp del]

fun norm2 :: "nat \<Rightarrow> int \<Rightarrow> nat \<times> int" where
  "norm2 m e =
     (if m = 0 then (0, 0) else if even m then norm2 (m div 2) (e + 1) else (m, e))"

declare norm2.simps [simp del]

text \<open>\<open>round_shift m s\<close> is \<open>m / 2^s\<close> rounded to the nearest integer, ties to even.\<close>

definition round_shift :: "nat \<Rightarrow> nat \<Rightarrow> nat" where
  "round_shift m s =
     (let n = m div 2 ^ s; r = m mod 2 ^ s; h = 2 ^ (s - 1)
      in if s = 0 then m
         else if r < h then n else if h < r then n + 1
         else if even n then n else n + 1)"

text \<open>
  \<open>fround p emax neg m e\<close> rounds \<open>m * 2^e\<close> to \<open>p\<close> bits of precision: the unit of the
  last place is \<open>2^qe\<close>, never below the unit of the subnormal numbers, and a result of
  \<open>2^(emax+1)\<close> or more is an infinity.
\<close>

definition fround :: "nat \<Rightarrow> int \<Rightarrow> bool \<Rightarrow> nat \<Rightarrow> int \<Rightarrow> float" where
  "fround p emax neg m e =
     (let qe = max (e + int (bitlen m) - int p) (2 - emax - int p);
          n = (if qe \<le> e then m else round_shift m (nat (qe - e)));
          f = (if qe \<le> e then e else qe)
      in if n = 0 then Finite neg 0 0
         else if emax + 1 < int (bitlen n) + f then Infinity neg
         else (case norm2 n f of (n', f') \<Rightarrow> Finite neg n' f'))"

definition fround64 :: "bool \<Rightarrow> nat \<Rightarrow> int \<Rightarrow> float" where
  "fround64 = fround 53 1023"

definition fround32 :: "bool \<Rightarrow> nat \<Rightarrow> int \<Rightarrow> float" where
  "fround32 = fround 24 127"

fun fmul :: "float \<Rightarrow> float \<Rightarrow> float" where
  "fmul NaN y = NaN"
| "fmul x NaN = NaN"
| "fmul (Infinity a) (Infinity b) = Infinity (a \<noteq> b)"
| "fmul (Infinity a) (Finite b m e) = (if m = 0 then NaN else Infinity (a \<noteq> b))"
| "fmul (Finite a m e) (Infinity b) = (if m = 0 then NaN else Infinity (a \<noteq> b))"
| "fmul (Finite a m e) (Finite b k f) = fround64 (a \<noteq> b) (m * k) (e + f)"

definition signed :: "bool \<Rightarrow> int \<Rightarrow> int" where
  "signed neg m = (if neg then - m else m)"

fun fadd :: "float \<Rightarrow> float \<Rightarrow> float" where
  "fadd NaN y = NaN"
| "fadd x NaN = NaN"
| "fadd (Infinity a) (Infinity b) = (if a = b then Infinity a else NaN)"
| "fadd (Infinity a) (Finite b m e) = Infinity a"
| "fadd (Finite a m e) (Infinity b) = Infinity b"
| "fadd (Finite a m e) (Finite b k f) =
     (let g = min e f;
          v = signed a (int m * 2 ^ nat (e - g)) + signed b (int k * 2 ^ nat (f - g))
      in if v = 0 then Finite (a \<and> b) 0 0 else fround64 (v < 0) (nat \<bar>v\<bar>) g)"

text \<open>
  \<^verbatim>\<open>math.Inf(sign)\<close> is the positive infinity for \<open>sign \<ge> 0\<close> and the negative one
  otherwise; \<^verbatim>\<open>float64(sign)\<close> converts the integer sign.
\<close>

definition math_Inf :: "int \<Rightarrow> float" where
  "math_Inf sign = (if sign \<ge> 0 then Infinity False else Infinity True)"

definition float64_of_int :: "int \<Rightarrow> float" where
  "float64_of_int i = fround64 (i < 0) (nat \<bar>i\<bar>) 0"

text \<open>
  \<^verbatim>\<open>Value.OverflowFloat(x)\<close> is false for a 64-bit target; for a 32-bit target it tells
  whether the finite magnitude of \<open>x\<close> is beyond \<^verbatim>\<open>math.MaxFloat32\<close>, which is
  \<open>(2^24 - 1) * 2^104\<close>. \<^verbatim>\<open>Value.SetFloat(x)\<close> stores \<^verbatim>\<open>float32(x)\<close> in a 32-bit
  target.
\<close>

definition above_MaxFloat32 :: "nat \<Rightarrow> int \<Rightarrow> bool" where
  "above_MaxFloat32 m e =
     (if 104 \<le> e then 2 ^ 24 - 1 < m * 2 ^ nat (e - 104)
      else (2 ^ 24 - 1) * 2 ^ nat (104 - e) < m)"

definition OverflowFloat :: "nat \<Rightarrow> float \<Rightarrow> bool" where
  "OverflowFloat bits x =
     (bits = 32 \<and> (case x of Finite s m e \<Rightarrow> above_MaxFloat32 m e | _ \<Rightarrow> False))"

definition SetFloat :: "nat \<Rightarrow> float \<Rightarrow> float" where
  "SetFloat bits x =
     (if bits = 32 then (case x of Finite s m e \<Rightarrow> fround32 s m e | _ \<Rightarrow> x) else x)"

subsection \<open>\<^verbatim>\<open>resolve_float\<close>\<close>

text \<open>
  \<^verbatim>\<open>strconv.ParseFloat\<close> is not part of the repository. The converter takes it as the
  parameter \<open>pf\<close>: \<open>pf s bits\<close> is the pair of the value that \<^verbatim>\<open>ParseFloat(s, bits)\<close>
  returns and of whether its error is not \<^verbatim>\<open>nil\<close>.
\<close>

type_synonym parse_float = "string \<Rightarrow> nat \<Rightarrow> float \<times> bool"

fun sexagesimal_float :: "parse_float \<Rightarrow> nat \<Rightarrow> string list \<Rightarrow> float \<Rightarrow> float \<Rightarrow> float option" where
  "sexagesimal_float pf bits [] v bes = Some v"
| "sexagesimal_float pf bits (d # ds) v bes =
     (let (p, err) = pf d bits;
          n = fmul p bes
      in if err \<or> OverflowFloat bits n then None
         else sexagesimal_float pf bits ds (fadd v n) (fmul bes (Finite False 15 2)))"

definition resolve_float :: "parse_float \<Rightarrow> string \<Rightarrow> nat \<Rightarrow> float result" where
  "resolve_float pf val0 bits =
     (let val1 = Replace_underscores val0 in
      if val1 = [] then Panic
      else
        let sign = (if hd val1 = CHR ''-'' then - 1 else 1);
            val = (if hd val1 = CHR ''-'' \<or> hd val1 = CHR ''+'' then tl val1 else val1);
            valLower = ToLower val
        in if valLower = ''.inf'' then Ok (SetFloat bits (math_Inf sign))
           else if valLower = ''.nan'' then Ok (SetFloat bits NaN)
           else if Contains val CHR '':'' then
             (case sexagesimal_float pf bits (rev (Split val CHR '':'')) (Finite False 0 0) (Finite False 1 0) of
                None \<Rightarrow> Err (Float_error val)
              | Some v \<Rightarrow> Ok (SetFloat bits (fmul v (float64_of_int sign))))
           else
             let (p, err) = pf val bits;
                 v = fmul p (float64_of_int sign)
             in if err \<or> OverflowFloat bits v then Err (Float_error val)
                else Ok (SetFloat bits v))"

text \<open>The test \<^verbatim>\<open>c >= '0' && c <= '9'\<close>.\<close>

definition is_digit :: "char \<Rightarrow> bool" where
  "is_digit c = (48 \<le> (of_char c :: nat) \<and> (of_char c :: nat) \<le> 57)"

text \<open>
  Two stand-ins for the library parameters, used where a theorem is applied to a concrete
  input. \<open>decimal_ParseFloat\<close> reads the plain decimal numbers \<open>digits\<close>,
  \<open>digits.digits\<close>, \<open>digits.\<close> and \<open>.digits\<close>, rounds the exact quotient to the nearest
  value of the format as \<^verbatim>\<open>ParseFloat\<close> does, and reports every other text as an
  error. \<open>no_base64\<close> is a decoder that accepts nothing.
\<close>

definition digits_nat :: "string \<Rightarrow> nat" where
  "digits_nat s = foldl (\<lambda>n c. 10 * n + ((of_char c :: nat) - 48)) 0 s"

definition round_ratio :: "nat \<Rightarrow> int \<Rightarrow> bool \<Rightarrow> nat \<Rightarrow> nat \<Rightarrow> float" where
  "round_ratio p emax neg n d =
     (let t = p + 2 + bitlen d;
          q = (n * 2 ^ t) div d;
          sticky = (if (n * 2 ^ t) mod d = 0 then 0 else 1)
      in fround p emax neg (2 * q + sticky) (- int t - 1))"

definition decimal_ParseFloat :: parse_float where
  "decimal_ParseFloat s bits =
     (let ip = takeWhile is_digit s;
          rest = dropWhile is_digit s;
          fp = (if rest = [] then [] else tl rest)
      in if (ip = [] \<and> fp = []) \<or> (rest \<noteq> [] \<and> hd rest \<noteq> CHR ''.'') \<or> \<not> list_all is_digit fp
         then (Finite False 0 0, True)
         else
           let r = (if bits = 32 then round_ratio 24 127 False (digits_nat (ip @ fp)) (10 ^ length fp)
                    else round_ratio 53 1023 False (digits_nat (ip @ fp)) (10 ^ length fp))
           in (r, r = Infinity False))"

definition no_base64 :: "string \<Rightarrow> string option" where
  "no_base64 s = None"

subsection \<open>Package regexp\<close>

text \<open>
  The two patterns of \<^verbatim>\<open>init\<close> use character classes, concatenation, alternation,
  \<open>?\<close>, \<open>*\<close> and \<open>+\<close> on character classes, and capture groups. \<open>rmatch\<close> is the
  backtracking matcher whose first match is the leftmost-first match that package
  \<^verbatim>\<open>regexp\<close> returns: an alternation tries its left side first, \<open>?\<close>, \<open>*\<close> and \<open>+\<close>
  take as much as they can. It works through a list of pending items: the expressions
  still to be matched in sequence, and for every open group the mark \<open>End i s0\<close> that
  closes group \<open>i\<close>, opened when the text still to be read was \<open>s0\<close>. Both patterns
  start with \<open>^\<close> and end with \<open>$\<close>, so \<open>FindStringSubmatch\<close> matches from the first byte
  and accepts at the end of the text only. Its result is the function from group numbers
  to captured texts; a group that took no part in the match reads as the empty string;
  \<open>None\<close> is the empty slice that the source tests with \<^verbatim>\<open>len(matches) > 0\<close>.
\<close>

datatype regex =
    Class "char list"
  | Seq regex regex
  | Alt regex regex
  | Opt regex
  | Star "char list"
  | Plus "char list"
  | Group nat regex

datatype item = R regex | End nat string

type_synonym captures = "nat \<Rightarrow> string"

fun rsize :: "regex \<Rightarrow> nat" where
  "rsize (Class cls) = 1"
| "rsize (Seq a b) = Suc (rsize a + rsize b)"
| "rsize (Alt a b) = Suc (rsize a + rsize b)"
| "rsize (Opt a) = Suc (rsize a)"
| "rsize (Star cls) = 1"
| "rsize (Plus cls) = 1"
| "rsize (Group i a) = Suc (Suc (rsize a))"

fun isize :: "item \<Rightarrow> nat" where
  "isize (R r) = rsize r"
| "isize (End i s0) = 1"

function rmatch :: "item list \<Rightarrow> string \<Rightarrow> captures \<Rightarrow> captures option" where
  "rmatch [] s c = (if s = [] then Some c else None)"
| "rmatch (R (Class cls) # k) s c =
     (case s of [] \<Rightarrow> None | x # r \<Rightarrow> if x \<in> set cls then rmatch k r c else None)"
| "rmatch (R (Seq a b) # k) s c = rmatch (R a # R b # k) s c"
| "rmatch (R (Alt a b) # k) s c =
     (case rmatch (R a # k) s c of Some m \<Rightarrow> Some m | None \<Rightarrow> rmatch (R b # k) s c)"
| "rmatch (R (Opt a) # k) s c =
     (case rmatch (R a # k) s c of Some m \<Rightarrow> Some m | None \<Rightarrow> rmatch k s c)"
| "rmatch (R (Star cls) # k) s c =
     (case s of
        [] \<Rightarrow> rmatch k s c
      | x # r \<Rightarrow>
          if x \<in> set cls
          then (case rmatch (R (Star cls) # k) r c of Some m \<Rightarrow> Some m | None \<Rightarrow> rmatch k s c)
          else rmatch k s c)"
| "rmatch (R (Plus cls) # k) s c =
     (case s of [] \<Rightarrow> None
      | x # r \<Rightarrow> if x \<in> set cls then rmatch (R (Star cls) # k) r c else None)"
| "rmatch (R (Group i a) # k) s c = rmatch (R a # End i s # k) s c"
| "rmatch (End i s0 # k) s c = rmatch k s (c(i := take (length s0 - length s) s0))"
  by pat_completeness auto

termination
  by (relation "measures [\<lambda>(k, s, c). length s, \<lambda>(k, s, c). sum_list (map isize k)]") auto

definition FindStringSubmatch :: "regex \<Rightarrow> string \<Rightarrow> captures option" where
  "FindStringSubmatch re s =
     (case rmatch [R re] s (\<lambda>i. []) of
        None \<Rightarrow> None
      | Some c \<Rightarrow> Some (c(0 := s)))"

fun seqs :: "regex list \<Rightarrow> regex" where
  "seqs [] = Star []"
| "seqs [r] = r"
| "seqs (r # rs) = Seq r (seqs rs)"

definition D :: regex where
  "D = Class ''0123456789''"

definition Ch :: "char \<Rightarrow> regex" where
  "Ch c = Class [c]"

definition blank :: "char list" where
  "blank = [CHR '' '', CHR 0x09]"

text \<open>
  \<^verbatim>\<open>^([0-9][0-9][0-9][0-9])-([0-9][0-9]?)-([0-9][0-9]?)$\<close>
\<close>

definition ymd_regexp :: regex where
  "ymd_regexp =
     seqs [Group 1 (seqs [D, D, D, D]), Ch CHR ''-'',
           Group 2 (Seq D (Opt D)), Ch CHR ''-'',
           Group 3 (Seq D (Opt D))]"

text \<open>
  \<^verbatim>\<open>^([0-9][0-9][0-9][0-9])-([0-9][0-9]?)-([0-9][0-9]?)\<close>
  \<^verbatim>\<open>(?:(?:[Tt]|[ \t]+)([0-9][0-9]?):([0-9][0-9]):([0-9][0-9])(?:\.([0-9]*))?\<close>
  \<^verbatim>\<open>(?:[ \t]*(?:Z|([-+][0-9][0-9]?)(?::([0-9][0-9])?)?))?)?$\<close>
\<close>

definition timestamp_regexp :: regex where
  "timestamp_regexp =
     seqs [Group 1 (seqs [D, D, D, D]), Ch CHR ''-'',
           Group 2 (Seq D (Opt D)), Ch CHR ''-'',
           Group 3 (Seq D (Opt D)),
           Opt (seqs [Alt (Class ''Tt'') (Plus blank),
                      Group 4 (Seq D (Opt D)), Ch CHR '':'',
                      Group 5 (Seq D D), Ch CHR '':'',
                      Group 6 (Seq D D),
                      Opt (Seq (Ch CHR ''.'') (Group 7 (Star ''0123456789''))),
                      Opt (Seq (Star blank)
                             (Alt (Ch CHR ''Z'')
                                (Seq (Group 8 (seqs [Class ''-+'', D, Opt D]))
                                   (Opt (Seq (Ch CHR '':'') (Opt (Group 9 (Seq D D))))))))])]"

subsection \<open>Package time\<close>

text \<open>
  A \<^verbatim>\<open>time.Time\<close> is an instant, here the seconds since the Unix epoch and the
  nanoseconds within the second, together with a location. \<^verbatim>\<open>time.Date\<close> accepts
  components outside their usual ranges and normalizes them: \<open>norm hi lo base\<close> carries
  the whole multiples of \<open>base\<close> in \<open>lo\<close> over into \<open>hi\<close>. The days are counted in the
  proleptic Gregorian calendar; \<open>62135596800\<close> is the number of seconds from
  0001-01-01 to 1970-01-01.
\<close>

datatype location = UTC | FixedZone int

record Time =
  unix :: int
  nsec :: int
  loc :: location

definition norm :: "int \<Rightarrow> int \<Rightarrow> int \<Rightarrow> int \<times> int" where
  "norm hi lo base = (hi + lo div base, lo mod base)"

definition isLeap :: "int \<Rightarrow> bool" where
  "isLeap year = (year mod 4 = 0 \<and> (year mod 100 \<noteq> 0 \<or> year mod 400 = 0))"

definition daysBefore :: "int list" where
  "daysBefore = [0, 31, 59, 90, 120, 151, 181, 212, 243, 273, 304, 334, 365]"

definition daysSinceYear1 :: "int \<Rightarrow> int" where
  "daysSinceYear1 year =
     365 * (year - 1) + (year - 1) div 4 - (year - 1) div 100 + (year - 1) div 400"

definition Date :: "int \<Rightarrow> int \<Rightarrow> int \<Rightarrow> int \<Rightarrow> int \<Rightarrow> int \<Rightarrow> int \<Rightarrow> location \<Rightarrow> Time" where
  "Date year month day hour minute sec ns l =
     (let (year1, m) = norm year (month - 1) 12;
          month1 = m + 1;
          (sec1, nsec1) = norm sec ns 1000000000;
          (min1, sec2) = norm minute sec1 60;
          (hour1, min2) = norm hour min1 60;
          (day1, hour2) = norm day hour1 24;
          d = daysSinceYear1 year1 + daysBefore ! nat (month1 - 1)
              + (if isLeap year1 \<and> 3 \<le> month1 then 1 else 0) + (day1 - 1);
          abs = d * 86400 + hour2 * 3600 + min2 * 60 + sec2;
          u = abs - 62135596800
      in \<lparr>unix = (case l of UTC \<Rightarrow> u | FixedZone offset \<Rightarrow> u - offset),
          nsec = nsec1, loc = l\<rparr>)"

subsection \<open>\<^verbatim>\<open>resolve_time\<close>\<close>

definition resolve_time :: "string \<Rightarrow> Time result" where
  "resolve_time val =
     (case FindStringSubmatch ymd_regexp val of
        Some matches \<Rightarrow>
          Ok (Date (Atoi (matches 1)) (Atoi (matches 2)) (Atoi (matches 3)) 0 0 0 0 UTC)
      | None \<Rightarrow>
          (case FindStringSubmatch timestamp_regexp val of
             None \<Rightarrow> Err (Unexpected_timestamp val)
           | Some matches \<Rightarrow>
               let year = Atoi (matches 1);
                   month = Atoi (matches 2);
                   day = Atoi (matches 3);
                   hour = Atoi (matches 4);
                   minute = Atoi (matches 5);
                   sec = Atoi (matches 6);
                   ns = (if matches 7 \<noteq> [] then wrap64 (Atoi (matches 7) * 1000000) else 0);
                   l = (if matches 8 \<noteq> [] then
                          let sign = hd (matches 8);
                              hr = Atoi (tl (matches 8));
                              mn = (if matches 9 \<noteq> [] then Atoi (matches 9) else 0);
                              zoneOffset = (hr * 60 + mn) * 60
                          in FixedZone (if sign = CHR ''-'' then - zoneOffset else zoneOffset)
                        else UTC)
               in Ok (Date year month day hour minute sec ns l)))"

section \<open>Events, target kinds and values\<close>

text \<open>
  The resolver reads three fields of a \<^verbatim>\<open>yaml_event_t\<close>: \<^verbatim>\<open>value\<close>, \<^verbatim>\<open>tag\<close> and
  \<^verbatim>\<open>implicit\<close>.
\<close>

record yaml_event_t =
  ev_value :: string
  ev_tag :: string
  ev_implicit :: bool

text \<open>
  The target of \<^verbatim>\<open>resolve\<close> is a \<^verbatim>\<open>reflect.Value\<close>; what \<^verbatim>\<open>resolve\<close> reads of it is
  its kind, and for a struct or a slice whether its type is \<^verbatim>\<open>time.Time\<close> or
  \<^verbatim>\<open>[]byte\<close>. \<open>Other_kind\<close> stands for the kinds that the \<^verbatim>\<open>switch\<close> does not list
  (maps, pointers, arrays, complex numbers, ...). \<^verbatim>\<open>int\<close> and \<^verbatim>\<open>uint\<close> have 64 bits.
\<close>

datatype kind =
    String_kind | Bool_kind
  | Int_kind | Int8_kind | Int16_kind | Int32_kind | Int64_kind
  | Uint_kind | Uint8_kind | Uint16_kind | Uint32_kind | Uint64_kind
  | Float32_kind | Float64_kind
  | Interface_kind
  | Struct_Time | Struct_other
  | Slice_bytes | Slice_other
  | Other_kind

datatype val =
    Nil
  | Str string
  | Boolean bool
  | Integer int
  | Unsigned nat
  | Float float
  | Timestamp Time
  | Bytes string
  | Nil_slice
  | Zero_struct
  | Zero_other

fun bits_of :: "kind \<Rightarrow> nat" where
  "bits_of Int8_kind = 8"
| "bits_of Int16_kind = 16"
| "bits_of Int32_kind = 32"
| "bits_of Uint8_kind = 8"
| "bits_of Uint16_kind = 16"
| "bits_of Uint32_kind = 32"
| "bits_of Float32_kind = 32"
| "bits_of k = 64"

text \<open>
  \<^verbatim>\<open>reflect.Zero(v.Type())\<close>: the zero value of the target's type. The zero
  \<^verbatim>\<open>time.Time\<close> is 0001-01-01 00:00:00 UTC.
\<close>

fun Zero :: "kind \<Rightarrow> val" where
  "Zero String_kind = Str []"
| "Zero Bool_kind = Boolean False"
| "Zero Int_kind = Integer 0"
| "Zero Int8_kind = Integer 0"
| "Zero Int16_kind = Integer 0"
| "Zero Int32_kind = Integer 0"
| "Zero Int64_kind = Integer 0"
| "Zero Uint_kind = Unsigned 0"
| "Zero Uint8_kind = Unsigned 0"
| "Zero Uint16_kind = Unsigned 0"
| "Zero Uint32_kind = Unsigned 0"
| "Zero Uint64_kind = Unsigned 0"
| "Zero Float32_kind = Float (Finite False 0 0)"
| "Zero Float64_kind = Float (Finite False 0 0)"
| "Zero Interface_kind = Nil"
| "Zero Struct_Time = Timestamp \<lparr>unix = - 62135596800, nsec = 0, loc = UTC\<rparr>"
| "Zero Struct_other = Zero_struct"
| "Zero Slice_bytes = Nil_slice"
| "Zero Slice_other = Nil_slice"
| "Zero Other_kind = Zero_other"

section \<open>\<^verbatim>\<open>resolveInterface\<close>\<close>

text \<open>
  The three local targets \<^verbatim>\<open>i\<close>, \<^verbatim>\<open>f\<close> and \<^verbatim>\<open>t\<close> are an \<^verbatim>\<open>int64\<close>, a \<^verbatim>\<open>float64\<close>
  and a \<^verbatim>\<open>time.Time\<close>. A converter that returns an error lets the function go on; a
  converter that panics ends it.
\<close>

definition try_bool :: "string \<Rightarrow> val result" where
  "try_bool val =
     (case resolve_bool val of Ok b \<Rightarrow> Ok (Boolean b) | Err e \<Rightarrow> Ok (Str val) | Panic \<Rightarrow> Panic)"

definition try_float :: "parse_float \<Rightarrow> string \<Rightarrow> val result \<Rightarrow> val result" where
  "try_float pf val otherwise =
     (case resolve_float pf val 64 of Ok f \<Rightarrow> Ok (Float f) | Err e \<Rightarrow> otherwise | Panic \<Rightarrow> Panic)"

definition try_time :: "string \<Rightarrow> val result" where
  "try_time val =
     (case resolve_time val of Ok t \<Rightarrow> Ok (Timestamp t) | Err e \<Rightarrow> Ok (Str val) | Panic \<Rightarrow> Panic)"

definition resolveInterface :: "parse_float \<Rightarrow> yaml_event_t \<Rightarrow> val result" where
  "resolveInterface pf event =
     (if length (ev_value event) = 0 then Ok Nil
      else
        let val = ev_value event in
        if length (ev_tag event) = 0 \<and> \<not> ev_implicit event then Ok (Str val)
        else
          let c = hd val; sign = (c \<in> set signs) in
          if sign \<or> is_digit c then
            (case resolve_int val 64 of
               Ok i \<Rightarrow> Ok (Integer i)
             | Panic \<Rightarrow> Panic
             | Err e \<Rightarrow> try_float pf val (if \<not> sign then try_time val else Ok (Str val)))
          else if c \<in> set nulls then
            (if null_values val then Ok Nil else try_bool val)
          else if c = CHR ''.'' then try_float pf val (Ok (Str val))
          else if c \<in> set bools then try_bool val
          else Ok (Str val))"

section \<open>\<^verbatim>\<open>resolve\<close>\<close>

text \<open>
  \<^verbatim>\<open>base64.StdEncoding.Decode\<close> is the parameter \<open>b64\<close>, \<open>None\<close> for its error. A panic
  of package \<^verbatim>\<open>reflect\<close> is possible in two places: \<^verbatim>\<open>resolve_time\<close> sets a
  \<^verbatim>\<open>time.Time\<close> into the target, which panics for another struct type; and
  \<^verbatim>\<open>v.Set(reflect.ValueOf(nil))\<close> panics.
\<close>

definition lift :: "('a \<Rightarrow> val) \<Rightarrow> 'a result \<Rightarrow> val result" where
  "lift f r = (case r of Ok x \<Rightarrow> Ok (f x) | Err e \<Rightarrow> Err e | Panic \<Rightarrow> Panic)"

definition resolve :: "parse_float \<Rightarrow> (string \<Rightarrow> string option) \<Rightarrow> yaml_event_t \<Rightarrow> kind \<Rightarrow> val result" where
  "resolve pf b64 event k =
     (let val = ev_value event in
      if null_values val then Ok (Zero k)
      else if k = String_kind then Ok (Str val)
      else if k = Bool_kind then lift Boolean (resolve_bool val)
      else if k \<in> {Int_kind, Int8_kind, Int16_kind, Int32_kind, Int64_kind}
        then lift Integer (resolve_int val (bits_of k))
      else if k \<in> {Uint_kind, Uint8_kind, Uint16_kind, Uint32_kind, Uint64_kind}
        then lift Unsigned (resolve_uint val (bits_of k))
      else if k \<in> {Float32_kind, Float64_kind}
        then lift Float (resolve_float pf val (bits_of k))
      else if k = Interface_kind then
        (case resolveInterface pf event of Ok Nil \<Rightarrow> Panic | r \<Rightarrow> r)
      else if k = Struct_Time then lift Timestamp (resolve_time val)
      else if k = Struct_other then
        (case resolve_time val of Ok t \<Rightarrow> Panic | Err e \<Rightarrow> Err e | Panic \<Rightarrow> Panic)
      else if k = Slice_other then Err Cannot_resolve_into
      else if k = Slice_bytes then
        (case b64 (ev_value event) of None \<Rightarrow> Err Base64_error | Some b \<Rightarrow> Ok (Bytes b))
      else Err Resolve_failed_for)"

section \<open>Notions used to state the properties\<close>

text \<open>
  The casings of a lower-case word: every way to write each of its letters in lower or in
  upper case. \<open>casings_of ws\<close> collects the casings of the words of a list.
\<close>

definition to_upper :: "char \<Rightarrow> char" where
  "to_upper c =
     (let n = (of_char c :: nat) in if 97 \<le> n \<and> n \<le> 122 then char_of (n - 32) else c)"

fun casings :: "string \<Rightarrow> string list" where
  "casings [] = [[]]"
| "casings (c # cs) = concat (map (\<lambda>r. [c # r, to_upper c # r]) (casings cs))"

definition lower_letter :: "char \<Rightarrow> bool" where
  "lower_letter c = (97 \<le> (of_char c :: nat) \<and> (of_char c :: nat) \<le> 122)"

definition true_words :: "string list" where
  "true_words = [''y'', ''yes'', ''true'', ''on'']"

definition false_words :: "string list" where
  "false_words = [''n'', ''no'', ''false'', ''off'']"

definition casings_of :: "string list \<Rightarrow> string set" where
  "casings_of ws = (\<Union>w \<in> set ws. set (casings w))"

text \<open>
  Two results of \<^verbatim>\<open>resolve_time\<close> are the same instant when both are times with the same
  seconds and nanoseconds; the location does not matter (\<^verbatim>\<open>Time.Equal\<close>).
\<close>

definition same_instant :: "Time result \<Rightarrow> Time result \<Rightarrow> bool" where
  "same_instant a b =
     (case (a, b) of (Ok t, Ok u) \<Rightarrow> unix t = unix u \<and> nsec t = nsec u | _ \<Rightarrow> False)"

definition all_digits :: "string \<Rightarrow> bool" where
  "all_digits s = list_all is_digit s"

text \<open>
  Digit strings. \<open>numeral_of b s\<close>: \<open>s\<close> is a non-empty string of digits of the base
  \<open>b\<close>; \<open>number b s\<close> is the number that it writes in that base. \<open>join\<close> puts colons
  between the groups of a sexagesimal text, and \<open>sexagesimal gs\<close> is the sum of the
  groups, read in base 10, each times the power of 60 of its place, the first group
  having the highest place. \<open>lsb_value k ds\<close> is the same sum over the groups taken from
  the last one on, the first of them at place \<open>k\<close>.
\<close>

definition digit_in :: "nat \<Rightarrow> char \<Rightarrow> bool" where
  "digit_in b c = (case digit_val c of None \<Rightarrow> False | Some d \<Rightarrow> d < b)"

definition numeral_of :: "nat \<Rightarrow> string \<Rightarrow> bool" where
  "numeral_of b s = (s \<noteq> [] \<and> list_all (digit_in b) s)"

definition number :: "nat \<Rightarrow> string \<Rightarrow> nat" where
  "number b s = foldl (\<lambda>n c. n * b + (case digit_val c of None \<Rightarrow> 0 | Some d \<Rightarrow> d)) 0 s"

fun join :: "string list \<Rightarrow> string" where
  "join [] = []"
| "join [g] = g"
| "join (g # gs) = g @ CHR '':'' # join gs"

definition sexagesimal :: "string list \<Rightarrow> nat" where
  "sexagesimal gs = (\<Sum>i<length gs. number 10 (gs ! i) * 60 ^ (length gs - 1 - i))"

fun lsb_value :: "nat \<Rightarrow> string list \<Rightarrow> nat" where
  "lsb_value k [] = 0"
| "lsb_value k (d # ds) = number 10 d * 60 ^ k + lsb_value (Suc k) ds"


section \<open>Evaluation of the model on concrete texts\<close>

lemmas int_eval =
  resolve_int_def int_body_def resolve_uint_def uint_body_def Replace_underscores_def
  HasPrefix_def Contains_def finish_int_def finish_uint_def ParseInt_def ParseUint_def
  digit_val_def maxUint64_def wrap64_def uwrap64_def swrap_def OverflowInt_def SetInt_def
  OverflowUint_def SetUint_def

section \<open>Dynamic inference\<close>

text \<open>
  Claim C1 (dynamic inference never fails and never crashes). The plain scalar \<open>+\<close>
  starts with a sign, so \<^verbatim>\<open>resolveInterface\<close> calls \<^verbatim>\<open>resolve_int\<close>; after the sign is
  taken off the text is empty, it is neither \<open>0\<close> nor a \<open>0b\<close> or \<open>0x\<close> text, and the
  test \<^verbatim>\<open>val[0] == '0'\<close> reads a byte that is not there: the function panics, whatever
  \<^verbatim>\<open>ParseFloat\<close> does.
\<close>

theorem C1_resolveInterface_panics_on_sign:
  "resolveInterface pf \<lparr>ev_value = ''+'', ev_tag = [], ev_implicit = True\<rparr> = Panic
   \<and> resolveInterface pf \<lparr>ev_value = ''-'', ev_tag = [], ev_implicit = True\<rparr> = Panic"
  by (simp add: resolveInterface_def signs_def int_eval)

text \<open>
  Claim C5 (a quoted scalar stays a string). For every non-empty text, an event without
  a tag that is not implicit resolves to the text itself as a string: no converter is
  called.
\<close>

theorem C5_quoted_is_string:
  "ev_value event \<noteq> [] \<Longrightarrow> ev_tag event = [] \<Longrightarrow> \<not> ev_implicit event \<Longrightarrow>
     resolveInterface pf event = Ok (Str (ev_value event))"
  by (simp add: resolveInterface_def)

theorem C5_quoted_is_string_witness:
  "resolveInterface decimal_ParseFloat \<lparr>ev_value = ''123'', ev_tag = [], ev_implicit = False\<rparr>
     = Ok (Str ''123'')"
  using C5_quoted_is_string
          [of "\<lparr>ev_value = ''123'', ev_tag = [], ev_implicit = False\<rparr>" decimal_ParseFloat]
  by simp

section \<open>Null texts\<close>

text \<open>
  Claim C2 (null spellings resolve to the zero value of every target kind). For each of the
  five null texts and every target kind, \<^verbatim>\<open>resolve\<close> returns the zero value of the kind
  and no error; the result depends neither on the kind's converter nor on the library
  functions: the test comes first. The zero values are the empty string, \<open>false\<close>, the
  integer and unsigned zero, the positive floating-point zero and the nil interface.
\<close>

theorem C2_null_resolves_to_zero:
  "ev_value event \<in> {'''', ''~'', ''null'', ''Null'', ''NULL''} \<Longrightarrow>
     resolve pf b64 event k = Ok (Zero k)
     \<and> Zero String_kind = Str ''''
     \<and> Zero Int8_kind = Integer 0 \<and> Zero Int64_kind = Integer 0
     \<and> Zero Uint16_kind = Unsigned 0
     \<and> Zero Float64_kind = Float (Finite False 0 0)
     \<and> Zero Interface_kind = Nil"
  by (auto simp add: resolve_def null_values_def)

theorem C2_null_resolves_to_zero_witness:
  "resolve decimal_ParseFloat no_base64 \<lparr>ev_value = ''~'', ev_tag = [], ev_implicit = True\<rparr> Int8_kind
     = Ok (Integer 0)
   \<and> resolve decimal_ParseFloat no_base64 \<lparr>ev_value = ''NULL'', ev_tag = [], ev_implicit = True\<rparr>
       Interface_kind = Ok Nil"
  using C2_null_resolves_to_zero
          [of "\<lparr>ev_value = ''~'', ev_tag = [], ev_implicit = True\<rparr>"
              decimal_ParseFloat no_base64 Int8_kind]
        C2_null_resolves_to_zero
          [of "\<lparr>ev_value = ''NULL'', ev_tag = [], ev_implicit = True\<rparr>"
              decimal_ParseFloat no_base64 Interface_kind]
  by simp

section \<open>Integer overflow\<close>

text \<open>
  Claim C3 (a value beyond the target's width is an error, never a wrapped value). The
  decimal text \<open>99999999999999999999\<close> is an error for a 64-bit target. The sexagesimal
  loop tests each group's term alone: \<open>1:9223372036854775807\<close> has the terms \<open>60\<close> and
  \<open>2^63 - 1\<close>, both in range, and their sum wraps to a negative number that is stored
  without an error; \<open>1:100\<close> into an 8-bit target stores \<open>160\<close> cut to 8 bits, which is
  \<open>-96\<close>; the unsigned converter does the same.
\<close>

theorem C3_sexagesimal_sum_wraps:
  "resolve_int ''99999999999999999999'' 64 = Err (Integer_error ''99999999999999999999'')
   \<and> resolve_int ''1:9223372036854775807'' 64 = Ok (- 9223372036854775749)
   \<and> resolve_int ''1:100'' 8 = Ok (- 96)
   \<and> resolve_uint ''1:18446744073709551615'' 64 = Ok 59"
  by (simp add: int_eval)

section \<open>Booleans\<close>

lemma char_eq_char_of: "c = char_of (n :: nat) \<longleftrightarrow> of_char c = n mod 256"
  using char_of_eq_iff [of n c] by (auto simp add: take_bit_eq_mod)

lemma lower_byte_letter: "lower_letter c \<Longrightarrow> lower_byte c = c"
  by (simp add: lower_letter_def lower_byte_def Let_def)

lemma of_char_to_upper:
  assumes "lower_letter c"
  shows "(of_char (to_upper c) :: nat) = of_char c - 32"
proof -
  have "(of_char c :: nat) - 32 < 256"
    using assms unfolding lower_letter_def by arith
  then have "((of_char c :: nat) - 32) mod 256 = of_char c - 32"
    by (rule mod_less)
  then show ?thesis
    using assms by (simp add: lower_letter_def to_upper_def Let_def)
qed

lemma lower_byte_to_upper:
  assumes "lower_letter c"
  shows "lower_byte (to_upper c) = c"
proof -
  have n: "(of_char (to_upper c) :: nat) = of_char c - 32"
    using assms by (rule of_char_to_upper)
  have "65 \<le> (of_char c :: nat) - 32 \<and> (of_char c :: nat) - 32 \<le> 90"
    using assms unfolding lower_letter_def by arith
  moreover have "(of_char c :: nat) - 32 + 32 = of_char c"
    using assms unfolding lower_letter_def by arith
  ultimately show ?thesis
    by (simp add: lower_byte_def Let_def n)
qed

lemma lower_byte_inv:
  assumes "lower_byte x = c" "lower_letter c"
  shows "x = c \<or> x = to_upper c"
proof (cases "65 \<le> (of_char x :: nat) \<and> (of_char x :: nat) \<le> 90")
  case True
  then have c: "c = char_of ((of_char x :: nat) + 32)"
    using assms(1) by (simp add: lower_byte_def Let_def)
  have "(of_char x :: nat) + 32 < 256"
    using True by arith
  then have "((of_char x :: nat) + 32) mod 256 = of_char x + 32"
    by (rule mod_less)
  then have "(of_char c :: nat) = of_char x + 32"
    by (simp add: c)
  then have "to_upper c = x"
    using True by (simp add: to_upper_def Let_def)
  then show ?thesis by simp
next
  case False
  then show ?thesis using assms(1) by (auto simp add: lower_byte_def Let_def)
qed

lemma ToLower_ascii:
  "(of_char x :: nat) < 128 \<Longrightarrow> ToLower (x # r) = lower_byte x # ToLower r"
  by auto

lemma lower_letter_ascii: "lower_letter c \<Longrightarrow> (of_char c :: nat) < 128"
  by (simp add: lower_letter_def)

lemma to_upper_ascii:
  assumes "lower_letter c"
  shows "(of_char (to_upper c) :: nat) < 128"
proof -
  have "(of_char c :: nat) - 32 < 128"
    using assms unfolding lower_letter_def by arith
  then show ?thesis
    using of_char_to_upper [OF assms] by simp
qed

lemma ToLower_casing:
  "list_all lower_letter w \<Longrightarrow> s \<in> set (casings w) \<Longrightarrow> ToLower s = w"
proof (induction w arbitrary: s)
  case Nil
  then show ?case by simp
next
  case (Cons c w)
  from Cons.prems obtain r where r: "r \<in> set (casings w)" "s = c # r \<or> s = to_upper c # r"
    by auto
  have c: "lower_letter c" and w: "list_all lower_letter w"
    using Cons.prems(1) by simp_all
  have "ToLower r = w" using Cons.IH [OF w r(1)] .
  then show ?case
    using r(2) c
    by (auto simp only: ToLower_ascii lower_letter_ascii to_upper_ascii lower_byte_letter lower_byte_to_upper)
qed

lemma casing_of_ToLower:
  "ToLower s = w \<Longrightarrow> list_all lower_letter w \<Longrightarrow> CHR ''i'' \<notin> set w \<Longrightarrow> CHR ''k'' \<notin> set w \<Longrightarrow>
     s \<in> set (casings w)"
proof (induction s arbitrary: w rule: ToLower.induct)
  case 1
  then show ?case by auto
next
  case (2 c cs)
  show ?case
  proof (cases "c = CHR 0xC4 \<and> take 1 cs = [CHR 0xB0]")
    case True
    then have "hd w = CHR ''i''" "w \<noteq> []" using "2.prems"(1) by auto
    then show ?thesis using "2.prems"(3) by (cases w) auto
  next
    case f1: False
    show ?thesis
    proof (cases "c = CHR 0xE2 \<and> take 2 cs = [CHR 0x84, CHR 0xAA]")
      case True
      then have "hd w = CHR ''k''" "w \<noteq> []" using "2.prems"(1) f1 by auto
      then show ?thesis using "2.prems"(4) by (cases w) auto
    next
      case f2: False
      then have eq: "w = lower_byte c # ToLower cs"
        using "2.prems"(1) f1 by auto
      then obtain d v where w: "w = d # v" "lower_byte c = d" "ToLower cs = v" by simp
      have "cs \<in> set (casings v)"
        using "2.IH"(3) [OF f1 f2 w(3)] "2.prems"(2,3,4) w(1) by simp
      moreover have "c = d \<or> c = to_upper d"
        using lower_byte_inv [OF w(2)] "2.prems"(2) w(1) by simp
      ultimately show ?thesis using w(1) by auto
    qed
  qed
qed

lemma bool_values_Some:
  "bool_values x = Some b \<Longrightarrow> (b \<and> x \<in> set true_words) \<or> (\<not> b \<and> x \<in> set false_words)"
  by (auto simp add: bool_values_def true_words_def false_words_def split: if_splits)

lemma words_ok:
  "w \<in> set true_words \<union> set false_words \<Longrightarrow>
     list_all lower_letter w \<and> CHR ''i'' \<notin> set w \<and> CHR ''k'' \<notin> set w"
  by (auto simp add: true_words_def false_words_def lower_letter_def)

text \<open>
  Claim C8 (booleans: lower case, then a fixed table). Every casing of \<open>y\<close>, \<open>yes\<close>,
  \<open>true\<close>, \<open>on\<close> resolves to true, every casing of \<open>n\<close>, \<open>no\<close>, \<open>false\<close>,
  \<open>off\<close> to false, and every other text, a longer or shorter one included, is the error
  \<^verbatim>\<open>Invalid boolean\<close> carrying the text.
\<close>

theorem C8_resolve_bool:
  "(s \<in> casings_of true_words \<longrightarrow> resolve_bool s = Ok True)
   \<and> (s \<in> casings_of false_words \<longrightarrow> resolve_bool s = Ok False)
   \<and> (s \<notin> casings_of true_words \<union> casings_of false_words \<longrightarrow> resolve_bool s = Err (Invalid_boolean s))"
proof (intro conjI impI)
  assume "s \<in> casings_of true_words"
  then obtain w where w: "w \<in> set true_words" "s \<in> set (casings w)"
    by (auto simp add: casings_of_def)
  then have "ToLower s = w" using ToLower_casing words_ok by blast
  then show "resolve_bool s = Ok True"
    using w(1) by (auto simp add: resolve_bool_def bool_values_def true_words_def)
next
  assume "s \<in> casings_of false_words"
  then obtain w where w: "w \<in> set false_words" "s \<in> set (casings w)"
    by (auto simp add: casings_of_def)
  then have "ToLower s = w" using ToLower_casing words_ok by blast
  then show "resolve_bool s = Ok False"
    using w(1) by (auto simp add: resolve_bool_def bool_values_def false_words_def)
next
  assume n: "s \<notin> casings_of true_words \<union> casings_of false_words"
  have "bool_values (ToLower s) = None"
  proof (rule ccontr)
    assume "bool_values (ToLower s) \<noteq> None"
    then obtain b where "bool_values (ToLower s) = Some b" by auto
    then have m: "ToLower s \<in> set true_words \<union> set false_words"
      using bool_values_Some by blast
    then have "s \<in> set (casings (ToLower s))"
      using casing_of_ToLower [OF refl] words_ok by blast
    then show False using n m by (auto simp add: casings_of_def)
  qed
  then show "resolve_bool s = Err (Invalid_boolean s)"
    by (simp add: resolve_bool_def)
qed

theorem C8_resolve_bool_witness:
  "''TrUe'' \<in> casings_of true_words \<and> resolve_bool ''TrUe'' = Ok True
   \<and> ''OFF'' \<in> casings_of false_words \<and> resolve_bool ''OFF'' = Ok False
   \<and> ''yess'' \<notin> casings_of true_words \<union> casings_of false_words
   \<and> resolve_bool ''yess'' = Err (Invalid_boolean ''yess'')"
proof -
  have t: "''TrUe'' \<in> casings_of true_words"
    by (simp add: casings_of_def true_words_def to_upper_def char_eq_char_of)
  have f: "''OFF'' \<in> casings_of false_words"
    by (simp add: casings_of_def false_words_def to_upper_def char_eq_char_of)
  have n: "''yess'' \<notin> casings_of true_words \<union> casings_of false_words"
    by (simp add: casings_of_def true_words_def false_words_def to_upper_def char_eq_char_of)
  show ?thesis
    using t f n C8_resolve_bool [of "''TrUe''"] C8_resolve_bool [of "''OFF''"]
      C8_resolve_bool [of "''yess''"]
    by blast
qed

section \<open>Signs\<close>

lemma pow2_split: "0 < w \<Longrightarrow> (2 :: int) ^ w = 2 * 2 ^ (w - 1)"
  by (cases w) simp_all

lemma swrap_range:
  assumes "0 < w"
  shows "- (2 ^ (w - 1)) \<le> swrap w x" and "swrap w x < 2 ^ (w - 1)"
proof -
  have "0 \<le> (x + 2 ^ (w - 1)) mod 2 ^ w" by simp
  then show "- (2 ^ (w - 1)) \<le> swrap w x" by (simp add: swrap_def)
  have "(x + 2 ^ (w - 1)) mod 2 ^ w < 2 ^ w" by simp
  then show "swrap w x < 2 ^ (w - 1)"
    using pow2_split [OF assms] by (simp add: swrap_def)
qed

lemma swrap_id:
  assumes "0 < w" "- (2 ^ (w - 1)) \<le> y" "y < 2 ^ (w - 1)"
  shows "swrap w y = y"
proof -
  have "0 \<le> y + 2 ^ (w - 1)" "y + 2 ^ (w - 1) < 2 ^ w"
    using assms pow2_split [OF assms(1)] by simp_all
  then have "(y + 2 ^ (w - 1)) mod 2 ^ w = y + 2 ^ (w - 1)"
    by (rule mod_pos_pos_trivial)
  then show ?thesis by (simp add: swrap_def)
qed

lemma swrap_mod: "swrap w x mod 2 ^ w = x mod 2 ^ w"
proof -
  have "swrap w x mod 2 ^ w = ((x + 2 ^ (w - 1)) mod 2 ^ w - 2 ^ (w - 1)) mod 2 ^ w"
    by (simp add: swrap_def)
  also have "\<dots> = (x + 2 ^ (w - 1) - 2 ^ (w - 1)) mod 2 ^ w"
    by (rule mod_diff_left_eq)
  finally show ?thesis by simp
qed

lemma swrap_cong: "x mod 2 ^ w = y mod 2 ^ w \<Longrightarrow> swrap w x = swrap w y"
  unfolding swrap_def by (metis mod_add_left_eq)

lemma swrap_minus: "swrap w (- x) = swrap w (- swrap w x)"
  by (rule swrap_cong) (metis mod_minus_cong swrap_mod)

lemma swrap_swrap:
  assumes "w \<le> u"
  shows "swrap w (swrap u x) = swrap w x"
proof (rule swrap_cong)
  have "(2 :: int) ^ w dvd 2 ^ u" using assms by (rule le_imp_power_dvd)
  then have "swrap u x mod 2 ^ w = (swrap u x mod 2 ^ u) mod 2 ^ w"
    by (simp add: mod_mod_cancel)
  also have "\<dots> = (x mod 2 ^ u) mod 2 ^ w" by (simp only: swrap_mod)
  also have "\<dots> = x mod 2 ^ w" using \<open>2 ^ w dvd 2 ^ u\<close> by (simp add: mod_mod_cancel)
  finally show "swrap u x mod 2 ^ w = x mod 2 ^ w" .
qed

lemma swrap_neg:
  assumes "0 < w" "swrap w x = n" "n \<noteq> - (2 ^ (w - 1))"
  shows "swrap w (- x) = - n"
proof -
  have "- (2 ^ (w - 1)) \<le> n" "n < 2 ^ (w - 1)"
    using swrap_range [OF assms(1), of x] assms(2) by simp_all
  then have "- (2 ^ (w - 1)) \<le> - n" "- n < 2 ^ (w - 1)"
    using assms(3) by simp_all
  then have "swrap w (- n) = - n" using assms(1) by (intro swrap_id)
  then show ?thesis using swrap_minus [of w x] assms(2) by simp
qed

lemma finish_int_neg:
  assumes "finish_int b base 1 bits = Ok n" "n \<noteq> - (2 ^ (bits - 1))" "0 < bits" "bits \<le> 64"
  shows "finish_int b base (- 1) bits = Ok (- n)"
proof -
  obtain p err where pe: "ParseInt b base = (p, err)" by (cases "ParseInt b base")
  from assms(1) pe have e: "err = None" and o: "\<not> OverflowInt bits (wrap64 p)"
    and n: "n = SetInt bits (wrap64 p)"
    by (auto simp add: finish_int_def Let_def split: if_splits)
  have v: "wrap64 p = n" using o n by (simp add: OverflowInt_def SetInt_def)
  have r: "- (2 ^ (bits - 1)) \<le> n" "n < 2 ^ (bits - 1)"
    using swrap_range [OF assms(3), of "wrap64 p"] n by (simp_all add: SetInt_def)
  have "(2 :: int) ^ (bits - 1) \<le> 2 ^ (64 - 1)"
    using assms(4) by (intro power_increasing) simp_all
  then have r64: "- (2 ^ (64 - 1)) \<le> - n" "- n < 2 ^ (64 - 1)"
    using r assms(2) by simp_all
  have "wrap64 (- p) = swrap 64 (- swrap 64 p)"
    unfolding wrap64_def by (rule swrap_minus)
  also have "\<dots> = swrap 64 (- n)" using v by (simp add: wrap64_def)
  also have "\<dots> = - n" using r64 by (intro swrap_id) simp_all
  finally have w: "wrap64 (- p) = - n" .
  have "swrap bits (- n) = - n"
    using r assms(2,3) by (intro swrap_id) simp_all
  then show ?thesis
    using pe e w by (simp add: finish_int_def Let_def OverflowInt_def SetInt_def)
qed

lemma int_body_neg:
  assumes "int_body val 1 bits = Ok n" "n \<noteq> - (2 ^ (bits - 1))" "0 < bits" "bits \<le> 64"
  shows "int_body val (- 1) bits = Ok (- n)"
proof -
  have f: "\<And>b base. finish_int b base 1 bits = Ok n \<Longrightarrow> finish_int b base (- 1) bits = Ok (- n)"
    using finish_int_neg assms(2,3,4) by blast
  have s: "\<And>v. Ok (SetInt bits (wrap64 (v * 1))) = Ok n \<Longrightarrow>
             Ok (SetInt bits (wrap64 (v * - 1))) = Ok (- n)"
  proof -
    fix v
    assume "Ok (SetInt bits (wrap64 (v * 1))) = Ok n"
    then have "swrap bits (swrap 64 v) = n" by (simp add: SetInt_def wrap64_def)
    then have "swrap bits v = n" using swrap_swrap [OF assms(4)] by simp
    then have "swrap bits (- v) = - n" using swrap_neg assms(2,3) by blast
    then have "swrap bits (swrap 64 (- v)) = - n" using swrap_swrap [OF assms(4)] by simp
    then show "Ok (SetInt bits (wrap64 (v * - 1))) = Ok (- n)"
      by (simp add: SetInt_def wrap64_def)
  qed
  show ?thesis
    using assms(1) f s
    unfolding int_body_def
    by (auto split: if_splits option.splits)
qed

text \<open>
  Claim C9 (signs). Let the text, once its underscores are removed, be non-empty and not
  begin with a sign. Then a \<open>+\<close> in front changes nothing, for the signed and for the
  unsigned converter, and a \<open>-\<close> in front makes the signed converter return the negated
  value (the most negative value of the width has no negation and is left aside). The
  unsigned converter returns the error \<^verbatim>\<open>Unsigned int with negative value\<close> for every
  text that begins with \<open>-\<close>, \<open>-1\<close> among them.
\<close>

theorem C9_signs:
  "(Replace_underscores s \<noteq> [] \<and> hd (Replace_underscores s) \<notin> set signs \<longrightarrow>
      resolve_int (CHR ''+'' # s) bits = resolve_int s bits
      \<and> resolve_uint (CHR ''+'' # s) bits = resolve_uint s bits
      \<and> (\<forall>n. bits \<in> {8, 16, 32, 64} \<and> resolve_int s bits = Ok n \<and> n \<noteq> - (2 ^ (bits - 1)) \<longrightarrow>
            resolve_int (CHR ''-'' # s) bits = Ok (- n)))
   \<and> (Replace_underscores s \<noteq> [] \<and> hd (Replace_underscores s) = CHR ''-'' \<longrightarrow>
      resolve_uint s bits = Err (Unsigned_negative (Replace_underscores s)))
   \<and> resolve_int ''10'' 64 = Ok 10 \<and> resolve_int ''+10'' 64 = Ok 10
   \<and> resolve_int ''-10'' 64 = Ok (- 10)
   \<and> resolve_uint ''10'' 64 = Ok 10 \<and> resolve_uint ''+10'' 64 = Ok 10
   \<and> resolve_uint ''-1'' 64 = Err (Unsigned_negative ''-1'')"
proof (intro conjI impI allI)
  assume a: "Replace_underscores s \<noteq> [] \<and> hd (Replace_underscores s) \<notin> set signs"
  have p: "Replace_underscores (CHR ''+'' # s) = CHR ''+'' # Replace_underscores s"
    by (simp add: Replace_underscores_def)
  show "resolve_int (CHR ''+'' # s) bits = resolve_int s bits"
    using a by (simp add: resolve_int_def p signs_def)
  show "resolve_uint (CHR ''+'' # s) bits = resolve_uint s bits"
    using a by (simp add: resolve_uint_def p signs_def)
  fix n
  assume b: "bits \<in> {8, 16, 32, 64} \<and> resolve_int s bits = Ok n \<and> n \<noteq> - (2 ^ (bits - 1))"
  have m: "Replace_underscores (CHR ''-'' # s) = CHR ''-'' # Replace_underscores s"
    by (simp add: Replace_underscores_def)
  have "int_body (Replace_underscores s) 1 bits = Ok n"
    using a b by (simp add: resolve_int_def signs_def)
  moreover have "0 < bits" "bits \<le> 64" using b by auto
  ultimately have "int_body (Replace_underscores s) (- 1) bits = Ok (- n)"
    using b int_body_neg by blast
  then show "resolve_int (CHR ''-'' # s) bits = Ok (- n)"
    by (simp add: resolve_int_def m)
next
  assume "Replace_underscores s \<noteq> [] \<and> hd (Replace_underscores s) = CHR ''-''"
  then show "resolve_uint s bits = Err (Unsigned_negative (Replace_underscores s))"
    by (simp add: resolve_uint_def)
qed (simp_all add: int_eval)

theorem C9_signs_witness:
  "Replace_underscores ''1_000'' \<noteq> [] \<and> hd (Replace_underscores ''1_000'') \<notin> set signs
   \<and> resolve_int ''1_000'' 16 = Ok 1000
   \<and> resolve_int ''+1_000'' 16 = Ok 1000
   \<and> resolve_int ''-1_000'' 16 = Ok (- 1000)
   \<and> resolve_uint ''+1_000'' 16 = Ok 1000
   \<and> hd (Replace_underscores ''_-7'') = CHR ''-''
   \<and> resolve_uint ''_-7'' 16 = Err (Unsigned_negative ''-7'')"
proof -
  have a: "Replace_underscores ''1_000'' = ''1000''" "Replace_underscores ''_-7'' = ''-7''"
    by (simp_all add: Replace_underscores_def)
  have b: "resolve_int ''1_000'' 16 = Ok 1000" "resolve_uint ''1_000'' 16 = Ok 1000"
    by (simp_all add: int_eval)
  show ?thesis
    using a b C9_signs [of "''1_000''" 16] C9_signs [of "''_-7''" 16]
    by (simp add: signs_def)
qed

lemma pow2_le_63:
  assumes "0 < bits" "bits \<le> 64"
  shows "(2 :: nat) ^ (bits - 1) \<le> 2 ^ 63"
  using assms by (intro power_increasing) simp_all

lemma swrap_nat:
  assumes "0 < w" "int n < 2 ^ (w - 1)"
  shows "swrap w (int n) = int n"
proof -
  have "- (2 ^ (w - 1)) \<le> (0 :: int)" by simp
  also have "0 \<le> int n" by simp
  finally show ?thesis using assms by (intro swrap_id)
qed

section \<open>Digit strings\<close>

lemma foldl_step_mono:
  "m \<le> foldl (\<lambda>n c. n * b + (case digit_val c of None \<Rightarrow> 0 | Some d \<Rightarrow> d)) m s" if "0 < b"
  using that
proof (induction s arbitrary: m)
  case Nil
  then show ?case by simp
next
  case (Cons c s)
  have "m \<le> m * b" using Cons.prems by simp
  also have "\<dots> \<le> m * b + (case digit_val c of None \<Rightarrow> 0 | Some d \<Rightarrow> d)" by simp
  also have "\<dots> \<le> foldl (\<lambda>n c. n * b + (case digit_val c of None \<Rightarrow> 0 | Some d \<Rightarrow> d))
                (m * b + (case digit_val c of None \<Rightarrow> 0 | Some d \<Rightarrow> d)) s"
    using Cons.IH [OF Cons.prems] .
  finally show ?case by simp
qed

lemma ParseUint_loop_digits:
  assumes "0 < b" "list_all (digit_in b) s"
    "foldl (\<lambda>n c. n * b + (case digit_val c of None \<Rightarrow> 0 | Some d \<Rightarrow> d)) m s \<le> maxUint64"
  shows "ParseUint_loop b m s
         = (foldl (\<lambda>n c. n * b + (case digit_val c of None \<Rightarrow> 0 | Some d \<Rightarrow> d)) m s, None)"
  using assms
proof (induction s arbitrary: m)
  case Nil
  then show ?case by simp
next
  case (Cons c s)
  from Cons.prems(2) obtain d where d: "digit_val c = Some d" "d < b"
    by (auto simp add: digit_in_def split: option.splits)
  let ?f = "\<lambda>n c. n * b + (case digit_val c of None \<Rightarrow> 0 | Some d \<Rightarrow> d)"
  have le: "m * b + d \<le> maxUint64"
    using foldl_step_mono [OF Cons.prems(1), of "m * b + d" s] Cons.prems(3) d(1) by simp
  have "\<not> maxUint64 div b + 1 \<le> m"
  proof
    assume "maxUint64 div b + 1 \<le> m"
    then have "(maxUint64 div b + 1) * b \<le> m * b" by (rule mult_le_mono1)
    moreover have "maxUint64 < (maxUint64 div b + 1) * b"
      using Cons.prems(1) by (simp add: dividend_less_div_times)
    ultimately show False using le by simp
  qed
  moreover have "ParseUint_loop b (m * b + d) s = (foldl ?f (m * b + d) s, None)"
    using Cons.IH [of "m * b + d"] Cons.prems d(1) by simp
  ultimately show ?case using d le by simp
qed

lemma digit_in_not_sign:
  "digit_in b c \<Longrightarrow> c \<noteq> CHR ''+'' \<and> c \<noteq> CHR ''-'' \<and> c \<noteq> CHR ''_'' \<and> c \<noteq> CHR '':''"
  by (auto simp add: digit_in_def digit_val_def)

lemma ParseInt_digits:
  assumes "0 < b" "numeral_of b s" "number b s < 2 ^ 63"
  shows "ParseInt s b = (int (number b s), None)"
proof -
  have s: "s \<noteq> []" "list_all (digit_in b) s" using assms(2) by (simp_all add: numeral_of_def)
  then have h: "hd s \<noteq> CHR ''+''" "hd s \<noteq> CHR ''-''"
    using digit_in_not_sign [of b "hd s"] by (cases s; simp)+
  have "number b s \<le> maxUint64" using assms(3) by (simp add: maxUint64_def)
  then have "ParseUint_loop b 0 s = (number b s, None)"
    using ParseUint_loop_digits [OF assms(1) s(2), of 0] by (simp add: number_def)
  then show ?thesis
    using s(1) h assms(3) by (simp add: ParseInt_def ParseUint_def)
qed

lemma is_digit_digit_in: "is_digit c \<Longrightarrow> digit_in 10 c"
  by (auto simp add: is_digit_def digit_in_def digit_val_def Let_def)

lemma all_digits_numeral_of: "all_digits s \<Longrightarrow> s \<noteq> [] \<Longrightarrow> numeral_of 10 s"
  by (auto simp add: all_digits_def numeral_of_def list_all_iff is_digit_digit_in)

lemma number_snoc:
  "number b (s @ [c]) = number b s * b + (case digit_val c of None \<Rightarrow> 0 | Some d \<Rightarrow> d)"
  by (simp add: number_def)

lemma number_bound: "list_all (digit_in 10) s \<Longrightarrow> number 10 s < 10 ^ length s"
proof (induction s rule: rev_induct)
  case Nil
  then show ?case by (simp add: number_def)
next
  case (snoc c s)
  then obtain d where d: "digit_val c = Some d" "d < 10"
    by (auto simp add: digit_in_def split: option.splits)
  have "number 10 s < 10 ^ length s" using snoc by simp
  then have "number 10 s + 1 \<le> 10 ^ length s" by simp
  then have "(number 10 s + 1) * 10 \<le> 10 ^ length s * 10" by (rule mult_le_mono1)
  then show ?case using d by (simp add: number_snoc)
qed

lemma Atoi_digits:
  assumes "all_digits s" "s \<noteq> []" "length s \<le> 18"
  shows "Atoi s = int (number 10 s)"
proof -
  have n: "numeral_of 10 s" using assms(1,2) by (rule all_digits_numeral_of)
  then have "number 10 s < 10 ^ length s"
    by (intro number_bound) (simp add: numeral_of_def)
  also have "(10 :: nat) ^ length s \<le> 10 ^ 18"
    using assms(3) by (intro power_increasing) simp_all
  also have "(10 :: nat) ^ 18 < 2 ^ 63" by simp
  finally have "ParseInt s 10 = (int (number 10 s), None)"
    using n by (intro ParseInt_digits) simp_all
  then show ?thesis by (simp add: Atoi_def)
qed

section \<open>Timestamps\<close>

lemmas time_eval =
  resolve_time_def FindStringSubmatch_def ymd_regexp_def timestamp_regexp_def D_def Ch_def
  blank_def Atoi_def ParseInt_def ParseUint_def digit_val_def maxUint64_def wrap64_def
  swrap_def Date_def norm_def isLeap_def daysBefore_def daysSinceYear1_def

lemma resolve_time_canonical:
  "resolve_time ''2001-12-15T02:59:43.1Z'' = Ok \<lparr>unix = 1008385183, nsec = 1000000, loc = UTC\<rparr>"
  by (simp add: time_eval)

lemma resolve_time_offset:
  "resolve_time ''2001-12-14t21:59:43.10-05:00''
     = Ok \<lparr>unix = 1008385183, nsec = 10000000, loc = FixedZone (- 18000)\<rparr>"
  by (simp add: time_eval)

lemma resolve_time_date:
  "resolve_time ''2002-12-14'' = Ok \<lparr>unix = 1039824000, nsec = 0, loc = UTC\<rparr>"
  by (simp add: time_eval)

lemma resolve_time_not_a_date:
  "resolve_time ''not-a-date'' = Err (Unexpected_timestamp ''not-a-date'')"
  by (simp add: time_eval)

lemma Date_canonical:
  "Date 2001 12 15 2 59 43 1000000 UTC = \<lparr>unix = 1008385183, nsec = 1000000, loc = UTC\<rparr>"
  "Date 2001 12 15 2 59 43 10000000 UTC = \<lparr>unix = 1008385183, nsec = 10000000, loc = UTC\<rparr>"
  "Date 2002 12 14 0 0 0 0 UTC = \<lparr>unix = 1039824000, nsec = 0, loc = UTC\<rparr>"
  by (simp_all add: Date_def norm_def isLeap_def daysBefore_def daysSinceYear1_def)

lemma carry_chain:
  fixes X :: int
  assumes "s1 = 60 * sq + sr" "m1 = 60 * mq + mr" "h1 = 24 * hq + hr" "h1 = h + mq" "m1 = mi + sq"
  shows "(X + (d + hq - 1)) * 86400 + hr * 3600 + mr * 60 + sr
      = (X + (d - 1)) * 86400 + h * 3600 + mi * 60 + s1"
  using assms by simp

lemma Date_expand:
  "Date y mo d h mi s ns l =
     \<lparr>unix = (daysSinceYear1 (y + (mo - 1) div 12) + daysBefore ! nat ((mo - 1) mod 12)
              + (if isLeap (y + (mo - 1) div 12) \<and> 2 \<le> (mo - 1) mod 12 then 1 else 0) + (d - 1)) * 86400
             + h * 3600 + mi * 60 + s + ns div 1000000000 - 62135596800
             - (case l of UTC \<Rightarrow> 0 | FixedZone offset \<Rightarrow> offset),
      nsec = ns mod 1000000000, loc = l\<rparr>"
proof -
  define s1 where "s1 = s + ns div 1000000000"
  define m1 where "m1 = mi + s1 div 60"
  define h1 where "h1 = h + m1 div 60"
  have a: "s1 = 60 * (s1 div 60) + s1 mod 60" by simp
  have b: "m1 = 60 * (m1 div 60) + m1 mod 60" by simp
  have c: "h1 = 24 * (h1 div 24) + h1 mod 24" by simp
  have e: "(X + (d + h1 div 24 - 1)) * 86400 + h1 mod 24 * 3600 + m1 mod 60 * 60 + s1 mod 60
      = (X + (d - 1)) * 86400 + h * 3600 + mi * 60 + s + ns div 1000000000" for X
    using carry_chain [OF a b c h1_def m1_def, of X d] by (simp add: s1_def)
  have u: "unix (Date y mo d h mi s ns l)
      = (daysSinceYear1 (y + (mo - 1) div 12) + daysBefore ! nat ((mo - 1) mod 12)
              + (if isLeap (y + (mo - 1) div 12) \<and> 2 \<le> (mo - 1) mod 12 then 1 else 0) + (d + h1 div 24 - 1)) * 86400
         + h1 mod 24 * 3600 + m1 mod 60 * 60 + s1 mod 60 - 62135596800
         - (case l of UTC \<Rightarrow> 0 | FixedZone offset \<Rightarrow> offset)"
    unfolding Date_def norm_def Let_def prod.case h1_def m1_def s1_def
    by (cases l) simp_all
  have n: "nsec (Date y mo d h mi s ns l) = ns mod 1000000000" "loc (Date y mo d h mi s ns l) = l"
    unfolding Date_def norm_def Let_def prod.case by simp_all
  show ?thesis
    using u n e [of "daysSinceYear1 (y + (mo - 1) div 12) + daysBefore ! nat ((mo - 1) mod 12)
              + (if isLeap (y + (mo - 1) div 12) \<and> 2 \<le> (mo - 1) mod 12 then 1 else 0)"]
    by (cases "Date y mo d h mi s ns l") simp
qed

lemma digit_class: "x \<in> set ''0123456789'' \<longleftrightarrow> is_digit x"
proof
  assume "x \<in> set ''0123456789''"
  then show "is_digit x" by (auto simp add: is_digit_def)
next
  assume d: "is_digit x"
  have e: "\<And>c. (of_char x :: nat) = of_char c \<Longrightarrow> x = c" by simp
  have "(of_char x :: nat) = 48 \<or> (of_char x :: nat) = 49 \<or> (of_char x :: nat) = 50
      \<or> (of_char x :: nat) = 51 \<or> (of_char x :: nat) = 52 \<or> (of_char x :: nat) = 53
      \<or> (of_char x :: nat) = 54 \<or> (of_char x :: nat) = 55 \<or> (of_char x :: nat) = 56
      \<or> (of_char x :: nat) = 57"
    using d unfolding is_digit_def by arith
  then show "x \<in> set ''0123456789''"
    using e [of "CHR ''0''"] e [of "CHR ''1''"] e [of "CHR ''2''"] e [of "CHR ''3''"]
      e [of "CHR ''4''"] e [of "CHR ''5''"] e [of "CHR ''6''"] e [of "CHR ''7''"]
      e [of "CHR ''8''"] e [of "CHR ''9''"]
    by auto
qed

lemma rmatch_D:
  "rmatch (R D # k) (x # r) c = (if is_digit x then rmatch k r c else None)"
  by (simp only: D_def rmatch.simps list.case digit_class)

lemma rmatch_D_Nil: "rmatch (R D # k) [] c = None"
  by (simp add: D_def)

lemma not_digit_dash: "\<not> is_digit CHR ''-''"
  by (simp add: is_digit_def)

lemma ymd_all_digits:
  assumes "all_digits y" "length y = 4" "all_digits m" "length m \<in> {1, 2}" "all_digits d" "length d \<in> {1, 2}"
  shows "resolve_time (y @ ''-'' @ m @ ''-'' @ d) = Ok (Date (Atoi y) (Atoi m) (Atoi d) 0 0 0 0 UTC)"
proof -
  obtain y1 y2 y3 y4 where y: "y = [y1, y2, y3, y4]"
    using assms(2) by (auto simp add: length_Suc_conv numeral_eq_Suc)
  from assms(4) consider m1 where "m = [m1]" | m1 m2 where "m = [m1, m2]"
    by (auto simp add: length_Suc_conv numeral_eq_Suc)
  then show ?thesis
  proof cases
    case 1
    from assms(6) consider d1 where "d = [d1]" | d1 d2 where "d = [d1, d2]"
      by (auto simp add: length_Suc_conv numeral_eq_Suc)
    then show ?thesis
    proof cases
      case 1
      with \<open>m = [m1]\<close> y assms(1,3,5) show ?thesis
        by (simp add: resolve_time_def FindStringSubmatch_def ymd_regexp_def Ch_def rmatch_D rmatch_D_Nil not_digit_dash all_digits_def)
    next
      case 2
      with \<open>m = [m1]\<close> y assms(1,3,5) show ?thesis
        by (simp add: resolve_time_def FindStringSubmatch_def ymd_regexp_def Ch_def rmatch_D rmatch_D_Nil not_digit_dash all_digits_def)
    qed
  next
    case 2
    from assms(6) consider d1 where "d = [d1]" | d1 d2 where "d = [d1, d2]"
      by (auto simp add: length_Suc_conv numeral_eq_Suc)
    then show ?thesis
    proof cases
      case 1
      with \<open>m = [m1, m2]\<close> y assms(1,3,5) show ?thesis
        by (simp add: resolve_time_def FindStringSubmatch_def ymd_regexp_def Ch_def rmatch_D rmatch_D_Nil not_digit_dash all_digits_def)
    next
      case 2
      with \<open>m = [m1, m2]\<close> y assms(1,3,5) show ?thesis
        by (simp add: resolve_time_def FindStringSubmatch_def ymd_regexp_def Ch_def rmatch_D rmatch_D_Nil not_digit_dash all_digits_def)
    qed
  qed
qed

lemma norm_month_carry: "norm y (m + 12 - 1) 12 = norm (y + 1) (m - 1) 12"
proof -
  have e: "m + 12 - 1 = (m - 1) + 12" by simp
  have d: "(m - 1 + 12) div 12 = (m - 1) div 12 + 1"
    by (rule div_add_self2) simp
  have r: "(m - 1 + 12) mod 12 = (m - 1) mod 12"
    by (rule mod_add_self2)
  show ?thesis unfolding norm_def e d r by simp
qed

lemma Date_month_carry:
  "Date y (m + 12) d h mi s ns l = Date (y + 1) m d h mi s ns l"
  by (simp only: Date_def norm_month_carry)


lemma star_digits:
  assumes "all_digits f" "r = [] \<or> \<not> is_digit (hd r)" "rmatch K r c \<noteq> None"
  shows "rmatch (R (Star ''0123456789'') # K) (f @ r) c = rmatch K r c"
  using assms(1)
proof (induction f)
  case Nil
  show ?case
  proof (cases r)
    case Nil
    then show ?thesis by simp
  next
    case (Cons y r')
    then have "y \<notin> set ''0123456789''" using assms(2) digit_class [of y] by simp
    then show ?thesis using Cons by simp
  qed
next
  case (Cons x f)
  then have "x \<in> set ''0123456789''" "all_digits f"
    using digit_class [of x] by (simp_all add: all_digits_def)
  moreover obtain m where "rmatch K r c = Some m" using assms(3) by auto
  ultimately show ?case using Cons.IH by simp
qed

lemmas rx_eval = FindStringSubmatch_def ymd_regexp_def timestamp_regexp_def D_def Ch_def blank_def

lemma Atoi_literals:
  "Atoi ''2001'' = 2001" "Atoi ''12'' = 12" "Atoi ''15'' = 15" "Atoi ''02'' = 2"
  "Atoi ''59'' = 59" "Atoi ''43'' = 43" "Atoi ''01'' = 1" "Atoi ''00'' = 0"
  by (simp_all add: Atoi_def ParseInt_def ParseUint_def digit_val_def maxUint64_def)

lemma star_Nil: "rmatch (R (Star cls) # k) [] c = rmatch k [] c"
  by simp

lemma star_Cons:
  "rmatch (R (Star cls) # k) (x # r) c =
     (if x \<in> set cls
      then (case rmatch (R (Star cls) # k) r c of Some m \<Rightarrow> Some m | None \<Rightarrow> rmatch k (x # r) c)
      else rmatch k (x # r) c)"
  by simp

lemma fraction_match:
  assumes "all_digits f"
  shows "resolve_time (''2001-12-15T02:59:43.'' @ f @ ''Z'')
       = Ok (Date (Atoi ''2001'') (Atoi ''12'') (Atoi ''15'') (Atoi ''02'') (Atoi ''59'') (Atoi ''43'')
              (if f \<noteq> [] then wrap64 (Atoi f * 1000000) else 0) UTC)"
  using assms
  by (simp add: resolve_time_def rx_eval star_digits star_Nil star_Cons is_digit_def
      del: rmatch.simps(6))

lemma milliseconds_no_wrap:
  assumes "all_digits f" "f \<noteq> []" "length f \<le> 12"
  shows "wrap64 (Atoi f * 1000000) = int (number 10 f) * 1000000"
proof -
  have a: "Atoi f = int (number 10 f)"
    using assms by (intro Atoi_digits) simp_all
  have "number 10 f < 10 ^ length f"
    using all_digits_numeral_of [OF assms(1,2)] by (intro number_bound) (simp add: numeral_of_def)
  also have "(10 :: nat) ^ length f \<le> 10 ^ 12"
    using assms(3) by (intro power_increasing) simp_all
  finally have "number 10 f * 1000000 < 10 ^ 12 * 1000000" by simp
  also have "(10 :: nat) ^ 12 * 1000000 < 2 ^ 63" by simp
  finally have "int (number 10 f * 1000000) < int (2 ^ 63)" by (simp only: of_nat_less_iff)
  then have "int (number 10 f * 1000000) < 2 ^ (64 - 1)" by simp
  then have "swrap 64 (int (number 10 f * 1000000)) = int (number 10 f * 1000000)"
    by (intro swrap_nat) simp_all
  then show ?thesis by (simp add: wrap64_def a)
qed

lemma Date_milliseconds:
  "Date 2001 12 15 2 59 43 (n * 1000000) UTC
     = \<lparr>unix = 1008385183 + n div 1000, nsec = n mod 1000 * 1000000, loc = UTC\<rparr>"
proof -
  have d: "(n * 1000000) div (1000 * 1000000) = n div 1000"
    by (rule div_mult_mult2) simp
  have m: "(n * 1000000) mod (1000 * 1000000) = n mod 1000 * 1000000"
    by (rule mod_mult_mult2)
  show ?thesis
    using d m by (simp add: Date_expand daysSinceYear1_def daysBefore_def isLeap_def)
qed

lemma fraction_milliseconds:
  assumes "all_digits f" "length f \<le> 12"
  shows "resolve_time (''2001-12-15T02:59:43.'' @ f @ ''Z'')
       = Ok \<lparr>unix = 1008385183 + int (number 10 f) div 1000,
              nsec = int (number 10 f) mod 1000 * 1000000, loc = UTC\<rparr>"
proof (cases "f = []")
  case True
  then show ?thesis
    using fraction_match [OF assms(1)] Date_milliseconds [of 0]
    by (simp add: Atoi_literals number_def)
next
  case False
  then show ?thesis
    using fraction_match [OF assms(1)] milliseconds_no_wrap [OF assms(1) False assms(2)]
      Date_milliseconds [of "int (number 10 f)"]
    by (simp add: Atoi_literals)
qed

text \<open>
  Claim C4, as stated, fails: the claim takes \<open>2001-12-14t21:59:43.10-05:00\<close> and
  \<open>2001-12-15T02:59:43.1Z\<close> for the same point in time. The source reads the digits after
  the point as a whole number of milliseconds, so \<open>.1\<close> is one millisecond and \<open>.10\<close> is
  ten: the two results are 9 milliseconds apart.
\<close>

theorem C4_same_instant_counterexample:
  "\<not> same_instant (resolve_time ''2001-12-15T02:59:43.1Z'')
        (resolve_time ''2001-12-14t21:59:43.10-05:00'')"
  by (simp add: resolve_time_canonical resolve_time_offset same_instant_def)

lemma fraction_general:
  assumes "FindStringSubmatch ymd_regexp val = None"
    "FindStringSubmatch timestamp_regexp val = Some m" "all_digits (m 7)" "length (m 7) \<le> 12"
  shows "\<exists>l. resolve_time val
           = Ok (Date (Atoi (m 1)) (Atoi (m 2)) (Atoi (m 3)) (Atoi (m 4)) (Atoi (m 5)) (Atoi (m 6))
                  (int (number 10 (m 7)) * 1000000) l)"
proof (cases "m 7 = []")
  case True
  then show ?thesis
    using assms(1,2) by (auto simp add: resolve_time_def Let_def number_def)
next
  case False
  then show ?thesis
    using assms(1,2) milliseconds_no_wrap [OF assms(3) False assms(4)]
    by (auto simp add: resolve_time_def Let_def)
qed

lemma Date_whole_milliseconds:
  "unix (Date yr mo dy hr mi sc (n * 1000000) l) = unix (Date yr mo dy hr mi sc 0 l) + n div 1000
   \<and> nsec (Date yr mo dy hr mi sc (n * 1000000) l) = n mod 1000 * 1000000"
proof -
  have d: "(n * 1000000) div (1000 * 1000000) = n div 1000"
    by (rule div_mult_mult2) simp
  have m: "(n * 1000000) mod (1000 * 1000000) = n mod 1000 * 1000000"
    by (rule mod_mult_mult2)
  show ?thesis
    using d m by (simp add: Date_expand)
qed

text \<open>
  Claim C4, amended. \<open>2001-12-15T02:59:43.1Z\<close> is 2001-12-15 02:59:43 UTC and one
  millisecond (1008385183 seconds after the Unix epoch); \<open>2001-12-14t21:59:43.10-05:00\<close>
  is, with its offset of -18000 seconds applied, 2001-12-15 02:59:43 UTC and ten
  milliseconds; \<open>2002-12-14\<close> is midnight UTC of that day; \<open>not-a-date\<close> is the error
  \<^verbatim>\<open>Unexpected timestamp\<close>. The digits after the point count milliseconds, as long as
  there are at most twelve of them. For every text that the full pattern matches, the
  nanoseconds handed to \<^verbatim>\<open>time.Date\<close> are a million times the number that the seventh
  group writes (the pattern lets digits only into that group), and \<^verbatim>\<open>time.Date\<close> of \<open>n\<close>
  million nanoseconds is the instant \<open>n\<close> milliseconds after the whole second. So for
  every string \<open>f\<close> of at most twelve digits, \<open>2001-12-15T02:59:43.fZ\<close> is the instant
  \<open>f\<close> milliseconds after 02:59:43 UTC.
\<close>

theorem C4_timestamps:
  "resolve_time ''2001-12-15T02:59:43.1Z'' = Ok (Date 2001 12 15 2 59 43 1000000 UTC)
   \<and> resolve_time ''2001-12-15T02:59:43.1Z'' = Ok \<lparr>unix = 1008385183, nsec = 1000000, loc = UTC\<rparr>
   \<and> resolve_time ''2001-12-14t21:59:43.10-05:00''
       = Ok \<lparr>unix = 1008385183, nsec = 10000000, loc = FixedZone (- 18000)\<rparr>
   \<and> same_instant (resolve_time ''2001-12-14t21:59:43.10-05:00'')
         (Ok (Date 2001 12 15 2 59 43 10000000 UTC))
   \<and> resolve_time ''2002-12-14'' = Ok (Date 2002 12 14 0 0 0 0 UTC)
   \<and> resolve_time ''2002-12-14'' = Ok \<lparr>unix = 1039824000, nsec = 0, loc = UTC\<rparr>
   \<and> resolve_time ''not-a-date'' = Err (Unexpected_timestamp ''not-a-date'')
   \<and> (all_digits f \<and> length f \<le> 12 \<longrightarrow>
        resolve_time (''2001-12-15T02:59:43.'' @ f @ ''Z'')
          = Ok \<lparr>unix = 1008385183 + int (number 10 f) div 1000,
                 nsec = int (number 10 f) mod 1000 * 1000000, loc = UTC\<rparr>)
   \<and> (FindStringSubmatch ymd_regexp val = None \<and> FindStringSubmatch timestamp_regexp val = Some m
        \<and> all_digits (m 7) \<and> length (m 7) \<le> 12 \<longrightarrow>
        (\<exists>l. resolve_time val
           = Ok (Date (Atoi (m 1)) (Atoi (m 2)) (Atoi (m 3)) (Atoi (m 4)) (Atoi (m 5)) (Atoi (m 6))
                  (int (number 10 (m 7)) * 1000000) l)))
   \<and> unix (Date yr mo dy hr mi sc (n * 1000000) z) = unix (Date yr mo dy hr mi sc 0 z) + n div 1000
   \<and> nsec (Date yr mo dy hr mi sc (n * 1000000) z) = n mod 1000 * 1000000"
proof (intro conjI impI)
  assume "all_digits f \<and> length f \<le> 12"
  then show "resolve_time (''2001-12-15T02:59:43.'' @ f @ ''Z'')
          = Ok \<lparr>unix = 1008385183 + int (number 10 f) div 1000,
                 nsec = int (number 10 f) mod 1000 * 1000000, loc = UTC\<rparr>"
    using fraction_milliseconds by blast
next
  assume "FindStringSubmatch ymd_regexp val = None \<and> FindStringSubmatch timestamp_regexp val = Some m
        \<and> all_digits (m 7) \<and> length (m 7) \<le> 12"
  then show "\<exists>l. resolve_time val
           = Ok (Date (Atoi (m 1)) (Atoi (m 2)) (Atoi (m 3)) (Atoi (m 4)) (Atoi (m 5)) (Atoi (m 6))
                  (int (number 10 (m 7)) * 1000000) l)"
    using fraction_general by blast
next
  show "unix (Date yr mo dy hr mi sc (n * 1000000) z) = unix (Date yr mo dy hr mi sc 0 z) + n div 1000"
    using Date_whole_milliseconds by blast
next
  show "nsec (Date yr mo dy hr mi sc (n * 1000000) z) = n mod 1000 * 1000000"
    using Date_whole_milliseconds by blast
qed (simp_all add: resolve_time_canonical resolve_time_offset resolve_time_date
      resolve_time_not_a_date Date_canonical same_instant_def)

theorem C4_timestamps_witness:
  "all_digits ''1500'' \<and> length ''1500'' \<le> 12
   \<and> FindStringSubmatch ymd_regexp ''2001-12-15T02:59:43.1500Z'' = None
   \<and> FindStringSubmatch timestamp_regexp ''2001-12-15T02:59:43.1500Z'' \<noteq> None
   \<and> the (FindStringSubmatch timestamp_regexp ''2001-12-15T02:59:43.1500Z'') 7 = ''1500''
   \<and> resolve_time ''2001-12-15T02:59:43.1500Z''
       = Ok \<lparr>unix = 1008385184, nsec = 500000000, loc = UTC\<rparr>
   \<and> (\<exists>l. resolve_time ''2001-12-15T02:59:43.1500Z''
         = Ok (Date 2001 12 15 2 59 43 (1500 * 1000000) l))"
proof -
  let ?val = "''2001-12-15T02:59:43.1500Z''"
  let ?m = "the (FindStringSubmatch timestamp_regexp ?val)"
  have d: "all_digits ''1500'' \<and> length ''1500'' \<le> 12"
    by (simp add: all_digits_def is_digit_def)
  have k: "number 10 ''1500'' = 1500"
    by (simp add: number_def digit_val_def)
  have y: "FindStringSubmatch ymd_regexp ?val = None"
    by (simp add: rx_eval)
  have t: "FindStringSubmatch timestamp_regexp ?val \<noteq> None"
    by (simp add: rx_eval)
  have g: "?m (Suc 0) = ''2001''" "?m 2 = ''12''" "?m 3 = ''15''" "?m 4 = ''02''" "?m 5 = ''59''"
    "?m 6 = ''43''" "?m 7 = ''1500''"
    by (simp_all add: rx_eval)
  have s: "FindStringSubmatch timestamp_regexp ?val = Some ?m"
    using t by simp
  have "\<exists>l. resolve_time ?val
      = Ok (Date (Atoi (?m 1)) (Atoi (?m 2)) (Atoi (?m 3)) (Atoi (?m 4)) (Atoi (?m 5)) (Atoi (?m 6))
             (int (number 10 (?m 7)) * 1000000) l)"
    using y s d g(7) C4_timestamps [where val = ?val and m = ?m] by simp
  then have e: "\<exists>l. resolve_time ?val = Ok (Date 2001 12 15 2 59 43 (1500 * 1000000) l)"
    by (simp add: g k Atoi_literals)
  show ?thesis
    using d k y t g(7) e C4_timestamps [where f = "''1500''"] by simp
qed

lemma Date_nsec_range:
  "0 \<le> nsec (Date y mo d h mi s ns l) \<and> nsec (Date y mo d h mi s ns l) < 1000000000"
  by (simp add: Date_expand)

lemma match_valid_instant:
  "FindStringSubmatch ymd_regexp val \<noteq> None \<or> FindStringSubmatch timestamp_regexp val \<noteq> None
    \<Longrightarrow> \<exists>t. resolve_time val = Ok t \<and> 0 \<le> nsec t \<and> nsec t < 1000000000"
  using Date_nsec_range
  by (cases "FindStringSubmatch ymd_regexp val"; cases "FindStringSubmatch timestamp_regexp val")
     (simp_all add: resolve_time_def Let_def)

lemma day_of_january:
  assumes "all_digits d" "length d \<in> {1, 2}"
  shows "resolve_time (''2001-01-'' @ d)
       = Ok \<lparr>unix = 978307200 + 86400 * (int (number 10 d) - 1), nsec = 0, loc = UTC\<rparr>"
proof -
  have "resolve_time (''2001'' @ ''-'' @ ''01'' @ ''-'' @ d)
      = Ok (Date (Atoi ''2001'') (Atoi ''01'') (Atoi d) 0 0 0 0 UTC)"
    using assms by (intro ymd_all_digits) (simp_all add: all_digits_def is_digit_def)
  moreover have "Atoi d = int (number 10 d)"
    using assms by (intro Atoi_digits) auto
  ultimately show ?thesis
    by (simp add: Atoi_literals Date_expand daysSinceYear1_def daysBefore_def isLeap_def)
qed

lemma hour_of_first_january:
  assumes "all_digits h" "length h \<in> {1, 2}"
  shows "resolve_time (''2001-01-01T'' @ h @ '':00:00'')
       = Ok \<lparr>unix = 978307200 + 3600 * int (number 10 h), nsec = 0, loc = UTC\<rparr>"
proof -
  have a: "Atoi h = int (number 10 h)"
    using assms by (intro Atoi_digits) auto
  from assms(2) consider h1 where "h = [h1]" | h1 h2 where "h = [h1, h2]"
    by (auto simp add: length_Suc_conv numeral_eq_Suc)
  then have "resolve_time (''2001-01-01T'' @ h @ '':00:00'')
      = Ok (Date (Atoi ''2001'') (Atoi ''01'') (Atoi ''01'') (Atoi h) (Atoi ''00'') (Atoi ''00'') 0 UTC)"
  proof cases
    case 1
    with assms(1) show ?thesis
      by (simp add: resolve_time_def FindStringSubmatch_def ymd_regexp_def timestamp_regexp_def
          Ch_def blank_def rmatch_D rmatch_D_Nil all_digits_def is_digit_def)
  next
    case 2
    with assms(1) show ?thesis
      by (simp add: resolve_time_def FindStringSubmatch_def ymd_regexp_def timestamp_regexp_def
          Ch_def blank_def rmatch_D rmatch_D_Nil all_digits_def is_digit_def)
  qed
  then show ?thesis
    by (simp add: a Atoi_literals Date_expand daysSinceYear1_def daysBefore_def isLeap_def)
qed

lemma anchors:
  "resolve_time ''2001-00-00'' = Ok \<lparr>unix = 975542400, nsec = 0, loc = UTC\<rparr>"
  "resolve_time ''2001-02-30'' = Ok \<lparr>unix = 983491200, nsec = 0, loc = UTC\<rparr>"
  "resolve_time ''2001-12-31T24:60:60'' = Ok \<lparr>unix = 1009846860, nsec = 0, loc = UTC\<rparr>"
  by (simp_all add: time_eval)

lemma resolve_time_month_14:
  "resolve_time ''2001-14-03'' = Ok \<lparr>unix = 1012694400, nsec = 0, loc = UTC\<rparr>"
  "resolve_time ''2002-02-03'' = Ok \<lparr>unix = 1012694400, nsec = 0, loc = UTC\<rparr>"
  by (simp_all add: time_eval)

lemma resolve_time_all_out_of_range:
  "resolve_time ''2001-14-31 99:99:99'' = Ok \<lparr>unix = 1015476039, nsec = 0, loc = UTC\<rparr>"
  by (simp add: time_eval)

text \<open>
  Claim C10 (no calendar validation). A text that matches one of the two patterns always
  resolves to a time, with its nanoseconds inside the second; the only error of the
  converter is that of a text matching neither pattern. Every date of four, one or two,
  and one or two digits resolves to \<^verbatim>\<open>time.Date\<close> of the three numbers, whatever they
  are, and \<^verbatim>\<open>time.Date\<close> carries them over: the days \<open>00\<close> to \<open>99\<close> of January 2001
  are counted on from 1 January 2001 (978307200 seconds after the Unix epoch), a day
  being 86400 seconds, and the hours \<open>0\<close> to \<open>99\<close> of that day likewise; twelve months
  are one year. Month 14 of 2001 is February 2002: \<open>2001-14-03\<close> is the instant
  1012694400, which is 2002-02-03 00:00:00 UTC; \<open>2001-14-31 99:99:99\<close> is 2002-03-07
  04:40:39 UTC; \<open>2001-00-00\<close> is 2000-11-30; \<open>2001-02-30\<close> is 2001-03-02;
  \<open>2001-12-31T24:60:60\<close> is 2002-01-01 01:01:00 UTC.
\<close>

theorem C10_no_range_validation:
  "(FindStringSubmatch ymd_regexp val \<noteq> None \<or> FindStringSubmatch timestamp_regexp val \<noteq> None
      \<longrightarrow> (\<exists>t. resolve_time val = Ok t \<and> 0 \<le> nsec t \<and> nsec t < 1000000000))
   \<and> (FindStringSubmatch ymd_regexp val = None \<and> FindStringSubmatch timestamp_regexp val = None
      \<longrightarrow> resolve_time val = Err (Unexpected_timestamp val))
   \<and> (all_digits y \<and> length y = 4 \<and> all_digits m \<and> length m \<in> {1, 2}
        \<and> all_digits d \<and> length d \<in> {1, 2}
      \<longrightarrow> resolve_time (y @ ''-'' @ m @ ''-'' @ d) = Ok (Date (Atoi y) (Atoi m) (Atoi d) 0 0 0 0 UTC))
   \<and> (all_digits dd \<and> length dd \<in> {1, 2}
      \<longrightarrow> resolve_time (''2001-01-'' @ dd)
            = Ok \<lparr>unix = 978307200 + 86400 * (int (number 10 dd) - 1), nsec = 0, loc = UTC\<rparr>)
   \<and> (all_digits hh \<and> length hh \<in> {1, 2}
      \<longrightarrow> resolve_time (''2001-01-01T'' @ hh @ '':00:00'')
            = Ok \<lparr>unix = 978307200 + 3600 * int (number 10 hh), nsec = 0, loc = UTC\<rparr>)
   \<and> Date yr (mo + 12) dy h mi s ns l = Date (yr + 1) mo dy h mi s ns l
   \<and> resolve_time ''2001-14-03'' = Ok \<lparr>unix = 1012694400, nsec = 0, loc = UTC\<rparr>
   \<and> resolve_time ''2002-02-03'' = Ok \<lparr>unix = 1012694400, nsec = 0, loc = UTC\<rparr>
   \<and> resolve_time ''2001-14-31 99:99:99'' = Ok \<lparr>unix = 1015476039, nsec = 0, loc = UTC\<rparr>
   \<and> resolve_time ''2001-00-00'' = Ok \<lparr>unix = 975542400, nsec = 0, loc = UTC\<rparr>
   \<and> resolve_time ''2001-02-30'' = Ok \<lparr>unix = 983491200, nsec = 0, loc = UTC\<rparr>
   \<and> resolve_time ''2001-12-31T24:60:60'' = Ok \<lparr>unix = 1009846860, nsec = 0, loc = UTC\<rparr>"
proof (intro conjI impI)
  assume "FindStringSubmatch ymd_regexp val \<noteq> None \<or> FindStringSubmatch timestamp_regexp val \<noteq> None"
  then show "\<exists>t. resolve_time val = Ok t \<and> 0 \<le> nsec t \<and> nsec t < 1000000000"
    by (rule match_valid_instant)
next
  assume "FindStringSubmatch ymd_regexp val = None \<and> FindStringSubmatch timestamp_regexp val = None"
  then show "resolve_time val = Err (Unexpected_timestamp val)"
    by (simp add: resolve_time_def)
next
  assume "all_digits y \<and> length y = 4 \<and> all_digits m \<and> length m \<in> {1, 2}
        \<and> all_digits d \<and> length d \<in> {1, 2}"
  then show "resolve_time (y @ ''-'' @ m @ ''-'' @ d) = Ok (Date (Atoi y) (Atoi m) (Atoi d) 0 0 0 0 UTC)"
    using ymd_all_digits by blast
next
  assume "all_digits dd \<and> length dd \<in> {1, 2}"
  then show "resolve_time (''2001-01-'' @ dd)
            = Ok \<lparr>unix = 978307200 + 86400 * (int (number 10 dd) - 1), nsec = 0, loc = UTC\<rparr>"
    using day_of_january by blast
next
  assume "all_digits hh \<and> length hh \<in> {1, 2}"
  then show "resolve_time (''2001-01-01T'' @ hh @ '':00:00'')
            = Ok \<lparr>unix = 978307200 + 3600 * int (number 10 hh), nsec = 0, loc = UTC\<rparr>"
    using hour_of_first_january by blast
next
  show "Date yr (mo + 12) dy h mi s ns l = Date (yr + 1) mo dy h mi s ns l"
    by (rule Date_month_carry)
qed (simp_all only: resolve_time_month_14 resolve_time_all_out_of_range anchors)

theorem C10_no_range_validation_witness:
  "FindStringSubmatch ymd_regexp ''2001-14-99'' \<noteq> None
   \<and> all_digits ''2001'' \<and> all_digits ''14'' \<and> all_digits ''99''
   \<and> resolve_time ''2001-14-99'' = Ok (Date 2001 14 99 0 0 0 0 UTC)
   \<and> resolve_time ''2001-14-99'' = Ok \<lparr>unix = 1020988800, nsec = 0, loc = UTC\<rparr>
   \<and> resolve_time ''2001-01-99'' = Ok \<lparr>unix = 986774400, nsec = 0, loc = UTC\<rparr>
   \<and> resolve_time ''2001-01-01T99:00:00'' = Ok \<lparr>unix = 978663600, nsec = 0, loc = UTC\<rparr>
   \<and> FindStringSubmatch ymd_regexp ''2001/14/99'' = None
   \<and> FindStringSubmatch timestamp_regexp ''2001/14/99'' = None
   \<and> resolve_time ''2001/14/99'' = Err (Unexpected_timestamp ''2001/14/99'')"
proof -
  have m: "FindStringSubmatch ymd_regexp ''2001-14-99'' \<noteq> None"
    by (simp add: FindStringSubmatch_def ymd_regexp_def D_def Ch_def)
  have n: "FindStringSubmatch ymd_regexp ''2001/14/99'' = None
      \<and> FindStringSubmatch timestamp_regexp ''2001/14/99'' = None"
    by (simp add: FindStringSubmatch_def ymd_regexp_def timestamp_regexp_def D_def Ch_def blank_def)
  have d: "all_digits ''2001'' \<and> length ''2001'' = 4 \<and> all_digits ''14'' \<and> length ''14'' \<in> {1, 2}
      \<and> all_digits ''99'' \<and> length ''99'' \<in> {1, 2}"
    by (simp add: all_digits_def is_digit_def)
  have a: "Atoi ''2001'' = 2001" "Atoi ''14'' = 14" "Atoi ''99'' = 99"
    by (simp_all add: Atoi_def ParseInt_def ParseUint_def digit_val_def maxUint64_def)
  have v: "Date 2001 14 99 0 0 0 0 UTC = \<lparr>unix = 1020988800, nsec = 0, loc = UTC\<rparr>"
    by (simp add: Date_def norm_def isLeap_def daysBefore_def daysSinceYear1_def)
  have k: "number 10 ''99'' = 99"
    by (simp add: number_def digit_val_def)
  have e: "\<exists>t. resolve_time ''2001-14-99'' = Ok t \<and> 0 \<le> nsec t \<and> nsec t < 1000000000"
    using m C10_no_range_validation [where val = "''2001-14-99''"] by blast
  show ?thesis
    using m n d a v k
      C10_no_range_validation [where val = "''2001/14/99''" and y = "''2001''" and m = "''14''"
        and d = "''99''" and dd = "''99''" and hh = "''99''"]
    by simp
qed

section \<open>Floats\<close>

lemma bitlen_0: "bitlen 0 = 0"
  by (simp add: bitlen.simps)

lemma bitlen_1: "bitlen 1 = 1"
  by (subst bitlen.simps) (simp add: bitlen_0)

lemma bitlen_Suc0: "bitlen (Suc 0) = 1"
  using bitlen_1 by simp

lemma bitlen_Bit0: "bitlen (numeral (Num.Bit0 n)) = Suc (bitlen (numeral n))"
  by (subst bitlen.simps) (simp add: numeral_Bit0_div_2 del: One_nat_def)

lemma bitlen_Bit1: "bitlen (numeral (Num.Bit1 n)) = Suc (bitlen (numeral n))"
  by (subst bitlen.simps) (simp add: numeral_Bit1_div_2 del: One_nat_def)

lemma norm2_0: "norm2 0 e = (0, 0)"
  by (simp add: norm2.simps)

lemma norm2_1: "norm2 1 e = (1, e)"
  by (subst norm2.simps) simp

lemma norm2_Suc0: "norm2 (Suc 0) e = (Suc 0, e)"
  by (subst norm2.simps) simp

lemma norm2_Bit0: "norm2 (numeral (Num.Bit0 n)) e = norm2 (numeral n) (e + 1)"
  by (subst norm2.simps) (simp add: numeral_Bit0_div_2 del: One_nat_def)

lemma norm2_Bit1: "norm2 (numeral (Num.Bit1 n)) e = (numeral (Num.Bit1 n), e)"
  by (subst norm2.simps) simp

lemmas float_eval =
  fround64_def fround32_def fround_def round_shift_def bitlen_0 bitlen_1 bitlen_Suc0
  bitlen_Bit0 bitlen_Bit1 norm2_0 norm2_1 norm2_Suc0 norm2_Bit0 norm2_Bit1 signed_def
  float64_of_int_def Let_def

lemma char_of_eq_char: "char_of (n :: nat) = c \<longleftrightarrow> of_char c = n mod 256"
  using char_eq_char_of [of c n] by auto

lemma inf_casings:
  "s \<in> set (casings ''.inf'') \<Longrightarrow>
     ToLower s = ''.inf'' \<and> Replace_underscores s = s \<and> s \<noteq> [] \<and> hd s = CHR ''.''"
  by (auto simp add: to_upper_def char_eq_char_of char_of_eq_char Replace_underscores_def lower_byte_def)

lemma nan_casings:
  "s \<in> set (casings ''.nan'') \<Longrightarrow>
     ToLower s = ''.nan'' \<and> Replace_underscores s = s \<and> s \<noteq> [] \<and> hd s = CHR ''.''"
  by (auto simp add: to_upper_def char_eq_char_of char_of_eq_char Replace_underscores_def lower_byte_def)

lemma resolve_float_special:
  assumes "Replace_underscores s = s" "s \<noteq> []" "hd s = CHR ''.''"
  shows "ToLower s = ''.inf'' \<Longrightarrow>
           resolve_float pf s bits = Ok (Infinity False)
           \<and> resolve_float pf (CHR ''+'' # s) bits = Ok (Infinity False)
           \<and> resolve_float pf (CHR ''-'' # s) bits = Ok (Infinity True)"
    and "ToLower s = ''.nan'' \<Longrightarrow>
           resolve_float pf s bits = Ok NaN
           \<and> resolve_float pf (CHR ''+'' # s) bits = Ok NaN
           \<and> resolve_float pf (CHR ''-'' # s) bits = Ok NaN"
proof -
  have p: "Replace_underscores (CHR ''+'' # s) = CHR ''+'' # s"
    "Replace_underscores (CHR ''-'' # s) = CHR ''-'' # s"
    using assms(1) by (simp_all add: Replace_underscores_def)
  show "ToLower s = ''.inf'' \<Longrightarrow>
           resolve_float pf s bits = Ok (Infinity False)
           \<and> resolve_float pf (CHR ''+'' # s) bits = Ok (Infinity False)
           \<and> resolve_float pf (CHR ''-'' # s) bits = Ok (Infinity True)"
    using assms by (simp add: resolve_float_def p Let_def math_Inf_def SetFloat_def)
  show "ToLower s = ''.nan'' \<Longrightarrow>
           resolve_float pf s bits = Ok NaN
           \<and> resolve_float pf (CHR ''+'' # s) bits = Ok NaN
           \<and> resolve_float pf (CHR ''-'' # s) bits = Ok NaN"
    using assms by (simp add: resolve_float_def p Let_def math_Inf_def SetFloat_def)
qed

lemma resolve_float_sexagesimal:
  assumes "pf ''1'' 64 = (Finite False 1 0, False)" "pf ''30.5'' 64 = (Finite False 61 (- 1), False)"
  shows "resolve_float pf ''1:30.5'' 64 = Ok (Finite False 181 (- 1))"
  using assms
  by (simp add: resolve_float_def Replace_underscores_def lower_byte_def Contains_def
      OverflowFloat_def SetFloat_def float_eval)

text \<open>
  Claim C7 (special floats and sexagesimal floats). Every casing of \<open>.inf\<close>, bare or
  after \<open>+\<close>, is the positive infinity and after \<open>-\<close> the negative infinity; every
  casing of \<open>.nan\<close> is a NaN, with or without a sign; this holds for both widths and
  whatever \<^verbatim>\<open>ParseFloat\<close> does. Where \<^verbatim>\<open>ParseFloat\<close> reads \<open>1\<close> as 1 and \<open>30.5\<close> as
  \<open>61 * 2^-1\<close>, the text \<open>1:30.5\<close> is \<open>181 * 2^-1\<close>, which is 90.5: every
  product and sum of the loop is exact.
\<close>

theorem C7_resolve_float:
  "(s \<in> set (casings ''.inf'') \<longrightarrow>
      resolve_float pf s bits = Ok (Infinity False)
      \<and> resolve_float pf (CHR ''+'' # s) bits = Ok (Infinity False)
      \<and> resolve_float pf (CHR ''-'' # s) bits = Ok (Infinity True))
   \<and> (s \<in> set (casings ''.nan'') \<longrightarrow>
      resolve_float pf s bits = Ok NaN
      \<and> resolve_float pf (CHR ''+'' # s) bits = Ok NaN
      \<and> resolve_float pf (CHR ''-'' # s) bits = Ok NaN)
   \<and> (pf ''1'' 64 = (Finite False 1 0, False) \<and> pf ''30.5'' 64 = (Finite False 61 (- 1), False) \<longrightarrow>
      resolve_float pf ''1:30.5'' 64 = Ok (Finite False 181 (- 1)))"
  using inf_casings [of s] nan_casings [of s] resolve_float_special [of s pf bits]
    resolve_float_sexagesimal [of pf]
  by blast

theorem C7_resolve_float_witness:
  "''.Inf'' \<in> set (casings ''.inf'')
   \<and> resolve_float decimal_ParseFloat ''.Inf'' 64 = Ok (Infinity False)
   \<and> resolve_float decimal_ParseFloat ''-.Inf'' 64 = Ok (Infinity True)
   \<and> ''.NaN'' \<in> set (casings ''.nan'')
   \<and> resolve_float decimal_ParseFloat ''-.NaN'' 64 = Ok NaN
   \<and> decimal_ParseFloat ''1'' 64 = (Finite False 1 0, False)
   \<and> decimal_ParseFloat ''30.5'' 64 = (Finite False 61 (- 1), False)
   \<and> resolve_float decimal_ParseFloat ''1:30.5'' 64 = Ok (Finite False 181 (- 1))"
proof -
  have i: "''.Inf'' \<in> set (casings ''.inf'')"
    by (simp add: to_upper_def char_eq_char_of)
  have n: "''.NaN'' \<in> set (casings ''.nan'')"
    by (simp add: to_upper_def char_eq_char_of)
  have p: "decimal_ParseFloat ''1'' 64 = (Finite False 1 0, False)"
    "decimal_ParseFloat ''30.5'' 64 = (Finite False 61 (- 1), False)"
    by (simp_all add: decimal_ParseFloat_def is_digit_def digits_nat_def round_ratio_def float_eval)
  show ?thesis
    using i n p C7_resolve_float [of "''.Inf''" decimal_ParseFloat 64]
      C7_resolve_float [of "''.NaN''" decimal_ParseFloat 64]
    by simp
qed

section \<open>Integer bases\<close>

lemma finish_int_digits:
  assumes "0 < b" "numeral_of b s" "number b s < 2 ^ (bits - 1)" "0 < bits" "bits \<le> 64"
  shows "finish_int s b 1 bits = Ok (int (number b s))"
proof -
  have lt: "number b s < 2 ^ 63"
    using assms(3) pow2_le_63 [OF assms(4,5)] by simp
  have p: "ParseInt s b = (int (number b s), None)"
    using ParseInt_digits [OF assms(1,2) lt] .
  have "int (number b s) < int (2 ^ (bits - 1))"
    using assms(3) by (simp only: of_nat_less_iff)
  then have i: "int (number b s) < 2 ^ (bits - 1)" by simp
  have "int (number b s) < int (2 ^ 63)"
    using lt by (simp only: of_nat_less_iff)
  then have i64: "int (number b s) < 2 ^ (64 - 1)" by simp
  have w: "swrap 64 (int (number b s)) = int (number b s)"
    using i64 by (intro swrap_nat) simp_all
  have v: "swrap bits (int (number b s)) = int (number b s)"
    using i assms(4) by (intro swrap_nat)
  show ?thesis
    by (simp add: finish_int_def p wrap64_def w OverflowInt_def SetInt_def v)
qed

lemma Split_no_sep: "sep \<notin> set g \<Longrightarrow> Split g sep = [g]"
  by (induction g) auto

lemma Split_append_sep: "sep \<notin> set g \<Longrightarrow> Split (g @ sep # r) sep = g # Split r sep"
  by (induction g) auto

lemma Split_join:
  "gs \<noteq> [] \<Longrightarrow> \<forall>g \<in> set gs. CHR '':'' \<notin> set g \<Longrightarrow> Split (join gs) CHR '':'' = gs"
proof (induction gs rule: join.induct)
  case 1
  then show ?case by simp
next
  case (2 g)
  then show ?case by (simp add: Split_no_sep)
next
  case (3 g h hs)
  then show ?case by (simp add: Split_append_sep)
qed

lemma numeral_of_chars:
  "numeral_of b g \<Longrightarrow> CHR '':'' \<notin> set g \<and> CHR ''_'' \<notin> set g"
  using digit_in_not_sign [of b] by (auto simp add: numeral_of_def list_all_iff)

lemma join_no_underscore:
  "\<forall>g \<in> set gs. numeral_of 10 g \<Longrightarrow> CHR ''_'' \<notin> set (join gs)"
  by (induction gs rule: join.induct) (auto dest: numeral_of_chars)

lemma hd_join: "gs \<noteq> [] \<Longrightarrow> hd gs \<noteq> [] \<Longrightarrow> join gs \<noteq> [] \<and> hd (join gs) = hd (hd gs)"
  by (induction gs rule: join.induct) auto

lemma join_contains: "2 \<le> length gs \<Longrightarrow> CHR '':'' \<in> set (join gs)"
  by (induction gs rule: join.induct) auto

lemma lsb_value_append:
  "lsb_value k (xs @ [g]) = lsb_value k xs + number 10 g * 60 ^ (k + length xs)"
  by (induction xs arbitrary: k) simp_all

lemma lsb_value_rev:
  "lsb_value k (rev gs) = (\<Sum>i<length gs. number 10 (gs ! i) * 60 ^ (k + (length gs - 1 - i)))"
proof (induction gs)
  case Nil
  then show ?case by simp
next
  case (Cons g gs)
  let ?f = "\<lambda>i. number 10 ((g # gs) ! i) * 60 ^ (k + (length (g # gs) - 1 - i))"
  have "(\<Sum>i<length (g # gs). ?f i) = ?f 0 + (\<Sum>i<length gs. ?f (Suc i))"
    by (simp only: length_Cons sum.lessThan_Suc_shift)
  also have "\<dots> = number 10 g * 60 ^ (k + length gs)
        + (\<Sum>i<length gs. number 10 (gs ! i) * 60 ^ (k + (length gs - 1 - i)))"
    by simp
  finally have "(\<Sum>i<length (g # gs). ?f i) = number 10 g * 60 ^ (k + length gs)
        + (\<Sum>i<length gs. number 10 (gs ! i) * 60 ^ (k + (length gs - 1 - i)))" .
  then show ?case using Cons.IH by (simp add: lsb_value_append)
qed

lemma sexagesimal_lsb: "sexagesimal gs = lsb_value 0 (rev gs)"
  by (simp add: sexagesimal_def lsb_value_rev)

lemma lsb_value_lower:
  "ds \<noteq> [] \<Longrightarrow> 1 \<le> number 10 (last ds) \<Longrightarrow> 60 ^ (k + length ds - 1) \<le> lsb_value k ds"
proof (induction ds arbitrary: k)
  case Nil
  then show ?case by simp
next
  case (Cons d ds)
  show ?case
  proof (cases "ds = []")
    case True
    then have "(60 :: nat) ^ k * 1 \<le> 60 ^ k * number 10 d"
      using Cons.prems(2) by (intro mult_le_mono2) simp
    then show ?thesis using True by (simp add: mult.commute)
  next
    case False
    then have "60 ^ (Suc k + length ds - 1) \<le> lsb_value (Suc k) ds"
      using Cons.IH [of "Suc k"] Cons.prems(2) by simp
    then show ?thesis by simp
  qed
qed

lemma sexagesimal_int_digits:
  assumes "0 < bits" "bits \<le> 64"
  shows "\<forall>d \<in> set ds. numeral_of 10 d \<Longrightarrow> ds = [] \<or> 1 \<le> number 10 (last ds) \<Longrightarrow>
           v + lsb_value k ds < 2 ^ (bits - 1) \<Longrightarrow>
           sexagesimal_int bits ds (int v) (60 ^ k) = Some (int (v + lsb_value k ds))"
proof (induction ds arbitrary: v k)
  case Nil
  then show ?case by simp
next
  case (Cons d ds)
  let ?t = "number 10 d * 60 ^ k"
  have b63: "(2 :: nat) ^ (bits - 1) \<le> 2 ^ 63" using pow2_le_63 [OF assms] .
  have tot: "v + ?t + lsb_value (Suc k) ds < 2 ^ (bits - 1)"
    using Cons.prems(3) by (simp add: add.assoc)
  have int_lt: "\<And>x. x < (2 :: nat) ^ (bits - 1) \<Longrightarrow> int x < 2 ^ (bits - 1) \<and> int x < 2 ^ (64 - 1)"
  proof -
    fix x :: nat
    assume x: "x < 2 ^ (bits - 1)"
    then have "int x < int (2 ^ (bits - 1))" by (simp only: of_nat_less_iff)
    moreover have "x < 2 ^ 63" using x b63 by simp
    then have "int x < int (2 ^ 63)" by (simp only: of_nat_less_iff)
    ultimately show "int x < 2 ^ (bits - 1) \<and> int x < 2 ^ (64 - 1)" by simp
  qed
  have "number 10 d * 1 \<le> ?t" by (intro mult_le_mono2) simp
  then have "number 10 d \<le> ?t" by (simp only: mult_1_right)
  then have "number 10 d < 2 ^ 63" using tot b63 by linarith
  moreover have "numeral_of 10 d" using Cons.prems(1) by simp
  ultimately have p: "ParseInt d 10 = (int (number 10 d), None)"
    by (intro ParseInt_digits) simp_all
  have t: "int ?t < 2 ^ (bits - 1) \<and> int ?t < 2 ^ (64 - 1)"
    using tot by (intro int_lt) simp
  have vt: "int (v + ?t) < 2 ^ (bits - 1) \<and> int (v + ?t) < 2 ^ (64 - 1)"
    using tot by (intro int_lt) simp
  have n: "wrap64 (int (number 10 d) * 60 ^ k) = int ?t"
    using swrap_nat [of 64 ?t] t by (simp add: wrap64_def)
  have o: "\<not> OverflowInt bits (int (number 10 d) * 60 ^ k)"
    using swrap_nat [OF assms(1), of ?t] t by (simp add: OverflowInt_def)
  have a: "wrap64 (int v + int (number 10 d) * 60 ^ k) = int v + int (number 10 d) * 60 ^ k"
    using swrap_nat [of 64 "v + ?t"] vt by (simp add: wrap64_def)
  show ?case
  proof (cases "ds = []")
    case True
    then show ?thesis by (simp add: p n o a Let_def)
  next
    case False
    then have l: "1 \<le> number 10 (last ds)" using Cons.prems(2) by simp
    have "Suc k \<le> Suc k + length ds - 1"
      using False by (cases ds) simp_all
    then have "(60 :: nat) ^ Suc k \<le> 60 ^ (Suc k + length ds - 1)"
      by (intro power_increasing) simp_all
    also have "\<dots> \<le> lsb_value (Suc k) ds" using lsb_value_lower [OF False l] .
    finally have "(60 :: nat) ^ Suc k < 2 ^ (bits - 1)" using tot by simp
    then have "int (60 ^ Suc k) < 2 ^ (64 - 1)" using int_lt by blast
    then have "swrap 64 (int (60 ^ Suc k)) = int (60 ^ Suc k)"
      by (intro swrap_nat) simp_all
    then have bes: "wrap64 (60 ^ k * 60) = 60 ^ Suc k"
      by (simp add: wrap64_def mult.commute)
    have "sexagesimal_int bits ds (int (v + ?t)) (60 ^ Suc k)
          = Some (int (v + ?t + lsb_value (Suc k) ds))"
      using Cons.IH [of "v + ?t" "Suc k"] Cons.prems(1) False l tot by simp
    then show ?thesis by (simp add: p n o a bes add.assoc Let_def)
  qed
qed

lemma digit_val_zero: "digit_val c = Some 0 \<Longrightarrow> c = CHR ''0''"
proof -
  assume a: "digit_val c = Some 0"
  have "(of_char c :: nat) = 48"
    using a by (auto simp add: digit_val_def Let_def split: if_splits)
  then have "(of_char c :: nat) = of_char CHR ''0''" by simp
  then show ?thesis by (simp only: of_char_eq_iff)
qed

lemma number_pos:
  assumes "digit_in 10 c" "c \<noteq> CHR ''0''"
  shows "1 \<le> number 10 (c # r)"
proof -
  obtain d where d: "digit_val c = Some d"
    using assms(1) by (auto simp add: digit_in_def split: option.splits)
  have "d \<noteq> 0" using digit_val_zero [of c] assms(2) d by auto
  then have "1 \<le> 0 * 10 + d" by simp
  also have "\<dots> \<le> number 10 (c # r)"
    using foldl_step_mono [of 10 "0 * 10 + d" r] d by (simp add: number_def)
  finally show ?thesis .
qed

lemma no_underscore: "CHR ''_'' \<notin> set r \<Longrightarrow> Replace_underscores r = r"
  by (induction r) (auto simp add: Replace_underscores_def)

lemma numeral_of_no_underscore: "numeral_of b r \<Longrightarrow> Replace_underscores r = r"
  using numeral_of_chars [of b r] by (simp add: no_underscore)

lemma numeral_of_hd: "numeral_of b r \<Longrightarrow> r \<noteq> [] \<and> digit_in b (hd r)"
  by (cases r) (simp_all add: numeral_of_def)

lemma resolve_int_binary:
  assumes "numeral_of 2 r" "number 2 r < 2 ^ (bits - 1)" "0 < bits" "bits \<le> 64"
  shows "resolve_int (''0b'' @ r) bits = Ok (int (number 2 r))"
proof -
  have "Replace_underscores (''0b'' @ r) = ''0b'' @ r"
    using numeral_of_no_underscore [OF assms(1)] by (simp add: Replace_underscores_def)
  moreover have "r \<noteq> []" using assms(1) by (simp add: numeral_of_def)
  moreover have "finish_int r 2 1 bits = Ok (int (number 2 r))"
    using assms by (intro finish_int_digits) simp_all
  ultimately show ?thesis
    by (simp add: resolve_int_def int_body_def HasPrefix_def)
qed

lemma resolve_int_hex:
  assumes "numeral_of 16 r" "number 16 r < 2 ^ (bits - 1)" "0 < bits" "bits \<le> 64"
  shows "resolve_int (''0x'' @ r) bits = Ok (int (number 16 r))"
proof -
  have "Replace_underscores (''0x'' @ r) = ''0x'' @ r"
    using numeral_of_no_underscore [OF assms(1)] by (simp add: Replace_underscores_def)
  moreover have "r \<noteq> []" using assms(1) by (simp add: numeral_of_def)
  moreover have "finish_int r 16 1 bits = Ok (int (number 16 r))"
    using assms by (intro finish_int_digits) simp_all
  ultimately show ?thesis
    by (simp add: resolve_int_def int_body_def HasPrefix_def)
qed

lemma resolve_int_octal:
  assumes "numeral_of 8 r" "number 8 r < 2 ^ (bits - 1)" "0 < bits" "bits \<le> 64"
  shows "resolve_int (''0'' @ r) bits = Ok (int (number 8 r))"
proof -
  obtain c cs where r: "r = c # cs" "digit_in 8 c"
    using numeral_of_hd [OF assms(1)] by (cases r) auto
  have u: "Replace_underscores (CHR ''0'' # c # cs) = CHR ''0'' # c # cs"
    using numeral_of_no_underscore [OF assms(1)] r(1) by (simp add: Replace_underscores_def)
  have c: "c \<noteq> CHR ''b''" "c \<noteq> CHR ''x''"
    using r(2) by (auto simp add: digit_in_def digit_val_def)
  have "finish_int r 8 1 bits = Ok (int (number 8 r))"
    using assms by (intro finish_int_digits) simp_all
  then show ?thesis
    using r(1) c by (simp add: resolve_int_def int_body_def HasPrefix_def u)
qed

lemma resolve_int_decimal:
  assumes "numeral_of 10 r" "hd r \<noteq> CHR ''0''" "number 10 r < 2 ^ (bits - 1)" "0 < bits" "bits \<le> 64"
  shows "resolve_int r bits = Ok (int (number 10 r))"
proof -
  obtain c cs where r: "r = c # cs" "digit_in 10 c"
    using numeral_of_hd [OF assms(1)] by (cases r) auto
  have c: "c \<noteq> CHR ''0''" "c \<noteq> CHR ''+''" "c \<noteq> CHR ''-''"
    using assms(2) r digit_in_not_sign [of 10 c] by simp_all
  have n: "CHR '':'' \<notin> set r" using numeral_of_chars [OF assms(1)] by simp
  have "finish_int r 10 1 bits = Ok (int (number 10 r))"
    using assms by (intro finish_int_digits) simp_all
  then show ?thesis
    using r(1) c n numeral_of_no_underscore [OF assms(1)]
    by (simp add: resolve_int_def int_body_def HasPrefix_def Contains_def)
qed

lemma resolve_int_sexagesimal:
  assumes "2 \<le> length gs" "\<forall>g \<in> set gs. numeral_of 10 g" "hd (hd gs) \<noteq> CHR ''0''"
    "sexagesimal gs < 2 ^ (bits - 1)" "0 < bits" "bits \<le> 64"
  shows "resolve_int (join gs) bits = Ok (int (sexagesimal gs))"
proof -
  have ne: "gs \<noteq> []" using assms(1) by auto
  then have h: "numeral_of 10 (hd gs)" using assms(2) by simp
  obtain c cs where g: "hd gs = c # cs" "digit_in 10 c"
    using numeral_of_hd [OF h] by (cases "hd gs") auto
  have c: "c \<noteq> CHR ''0''" "c \<noteq> CHR ''+''" "c \<noteq> CHR ''-''"
    using assms(3) g digit_in_not_sign [of 10 c] by simp_all
  have j: "join gs \<noteq> []" "hd (join gs) = c"
    using hd_join [OF ne] g(1) by simp_all
  then obtain js where js: "join gs = c # js" by (cases "join gs") auto
  have u: "Replace_underscores (join gs) = join gs"
    using join_no_underscore [OF assms(2)] by (rule no_underscore)
  have col: "CHR '':'' \<in> set (join gs)" using join_contains [OF assms(1)] .
  have sp: "Split (join gs) CHR '':'' = gs"
    using ne assms(2) numeral_of_chars by (intro Split_join) auto
  have top: "1 \<le> number 10 (last (rev gs))"
    using ne g c(1) number_pos [of c cs] by (simp add: last_rev)
  have "0 + lsb_value 0 (rev gs) < 2 ^ (bits - 1)"
    using assms(4) by (simp add: sexagesimal_lsb)
  then have "sexagesimal_int bits (rev gs) (int 0) (60 ^ 0) = Some (int (0 + lsb_value 0 (rev gs)))"
    using assms(2) top by (intro sexagesimal_int_digits [OF assms(5,6)]) simp_all
  then have loop: "sexagesimal_int bits (rev gs) 0 1 = Some (int (sexagesimal gs))"
    by (simp add: sexagesimal_lsb)
  have "int (sexagesimal gs) < int (2 ^ (bits - 1))"
    using assms(4) by (simp only: of_nat_less_iff)
  then have i: "int (sexagesimal gs) < 2 ^ (bits - 1)" by simp
  have "sexagesimal gs < 2 ^ 63" using assms(4) pow2_le_63 [OF assms(5,6)] by simp
  then have "int (sexagesimal gs) < int (2 ^ 63)" by (simp only: of_nat_less_iff)
  then have i64: "int (sexagesimal gs) < 2 ^ (64 - 1)" by simp
  have w: "SetInt bits (wrap64 (int (sexagesimal gs) * 1)) = int (sexagesimal gs)"
    using swrap_nat [of 64 "sexagesimal gs"] swrap_nat [OF assms(5), of "sexagesimal gs"] i i64
    by (simp add: SetInt_def wrap64_def)
  have body: "int_body (c # js) 1 bits = Ok (int (sexagesimal gs))"
    using c(1) col sp loop w unfolding js
    by (simp add: int_body_def HasPrefix_def Contains_def)
  show ?thesis
    using u c(2,3) body unfolding js by (simp add: resolve_int_def)
qed

lemma ParseUint_loop_bad_char:
  "c \<in> set s \<Longrightarrow> digit_val c = None \<Longrightarrow> snd (ParseUint_loop b n s) \<noteq> None"
proof (induction s arbitrary: n)
  case Nil
  then show ?case by simp
next
  case (Cons x s)
  show ?case
  proof (cases "x = c")
    case True
    then show ?thesis using Cons.prems(2) by simp
  next
    case False
    then have "c \<in> set s" using Cons.prems(1) by simp
    then have "\<And>m. snd (ParseUint_loop b m s) \<noteq> None"
      using Cons.IH Cons.prems(2) by blast
    then show ?thesis by (simp split: option.splits)
  qed
qed

lemma ParseUint_loop_range:
  "ParseUint_loop b n s = (a, Some ErrRange) \<Longrightarrow> a = maxUint64"
  by (induction s arbitrary: n) (auto split: option.splits if_splits)

lemma ParseInt_colon:
  assumes "CHR '':'' \<in> set s"
  shows "snd (ParseInt s b) \<noteq> None"
proof -
  have d: "digit_val CHR '':'' = None" by (simp add: digit_val_def)
  let ?s1 = "if hd s = CHR ''+'' \<or> hd s = CHR ''-'' then tl s else s"
  have c: "CHR '':'' \<in> set ?s1" using assms by (cases s) auto
  then have ne: "?s1 \<noteq> []" by auto
  obtain un err where p: "ParseUint ?s1 b = (un, err)" by (cases "ParseUint ?s1 b")
  then have l: "ParseUint_loop b 0 ?s1 = (un, err)" using ne by (simp add: ParseUint_def)
  have "err \<noteq> None"
    using ParseUint_loop_bad_char [OF c d, of b 0] l by simp
  then consider "err = Some ErrSyntax" | "err = Some ErrRange"
    by (cases err) (auto intro: num_error.exhaust)
  then show ?thesis
  proof cases
    case 1
    then show ?thesis using p assms by (auto simp add: ParseInt_def Let_def)
  next
    case 2
    then have "un = maxUint64" using l ParseUint_loop_range by blast
    then show ?thesis using p 2 assms by (auto simp add: ParseInt_def Let_def maxUint64_def)
  qed
qed

lemma finish_int_colon:
  "CHR '':'' \<in> set s \<Longrightarrow> finish_int s b sign bits = Err (Integer_error s)"
  using ParseInt_colon [of s b]
  by (cases "ParseInt s b") (simp add: finish_int_def Let_def)

lemma resolve_int_zero_colon:
  assumes "CHR '':'' \<in> set r"
  shows "\<exists>e. resolve_int (CHR ''0'' # r) bits = Err e"
proof -
  let ?r = "Replace_underscores r"
  have c: "CHR '':'' \<in> set ?r" using assms by (simp add: Replace_underscores_def)
  then obtain x xs where r: "?r = x # xs" by (cases ?r) auto
  have u: "Replace_underscores (CHR ''0'' # r) = CHR ''0'' # x # xs"
    using r by (simp add: Replace_underscores_def)
  have t: "CHR '':'' \<in> set (x # xs)" using c r by simp
  have b: "resolve_int (CHR ''0'' # r) bits = int_body (CHR ''0'' # x # xs) 1 bits"
    by (simp add: resolve_int_def u)
  consider "x = CHR ''b''" | "x = CHR ''x''" | "x \<noteq> CHR ''b''" "x \<noteq> CHR ''x''" by blast
  then show ?thesis
  proof cases
    case 1
    then have "CHR '':'' \<in> set xs" using t by auto
    then show ?thesis using 1 by (simp add: b int_body_def HasPrefix_def finish_int_colon)
  next
    case 2
    then have "CHR '':'' \<in> set xs" using t by auto
    then show ?thesis using 2 by (simp add: b int_body_def HasPrefix_def finish_int_colon)
  next
    case 3
    then show ?thesis using t by (simp add: b int_body_def HasPrefix_def finish_int_colon)
  qed
qed

text \<open>
  Claim C6, as stated, fails: the claim takes every text with a colon for a sexagesimal
  number, so that \<open>0:30\<close> would be \<open>0 * 60 + 30\<close>. The source tests the prefixes first:
  \<open>0:30\<close> begins with \<open>0\<close>, its rest \<open>:30\<close> is read in base 8, and the result is
  the error \<^verbatim>\<open>Integer\<close>.
\<close>

theorem C6_leading_zero_counterexample:
  "resolve_int ''0:30'' 64 = Err (Integer_error '':30'') \<and> resolve_int ''0:30'' 64 \<noteq> Ok (0 * 60 + 30)"
  by (simp add: int_eval)

text \<open>
  Claim C6, amended. For a target of 8, 16, 32 or 64 bits and a value that fits it:
  \<open>0b\<close> and digits of base 2 are that number in base 2, \<open>0x\<close> and digits of base 16
  that number in base 16, \<open>0\<close> and digits of base 8 that number in base 8, and decimal
  digits that do not begin with \<open>0\<close> that number in base 10. Two or more groups of
  decimal digits, of any size, joined by colons and not beginning with \<open>0\<close>, are the
  sum of the groups times the powers of 60. A text that begins with \<open>0\<close> and has a
  colon is read by its prefix and is an error. \<open>0b101\<close> is 5, \<open>017\<close> is 15, \<open>0x1F\<close>
  is 31, \<open>1:2\<close> is 62, \<open>-10\<close> is -10, and \<open>1:100\<close> is 160.
\<close>

theorem C6_base_selection:
  "bits \<in> {8, 16, 32, 64} \<longrightarrow>
     (numeral_of 2 b2 \<and> number 2 b2 < 2 ^ (bits - 1) \<longrightarrow>
        resolve_int (''0b'' @ b2) bits = Ok (int (number 2 b2)))
   \<and> (numeral_of 16 h16 \<and> number 16 h16 < 2 ^ (bits - 1) \<longrightarrow>
        resolve_int (''0x'' @ h16) bits = Ok (int (number 16 h16)))
   \<and> (numeral_of 8 o8 \<and> number 8 o8 < 2 ^ (bits - 1) \<longrightarrow>
        resolve_int (''0'' @ o8) bits = Ok (int (number 8 o8)))
   \<and> (numeral_of 10 d10 \<and> hd d10 \<noteq> CHR ''0'' \<and> number 10 d10 < 2 ^ (bits - 1) \<longrightarrow>
        resolve_int d10 bits = Ok (int (number 10 d10)))
   \<and> (2 \<le> length gs \<and> (\<forall>g \<in> set gs. numeral_of 10 g) \<and> hd (hd gs) \<noteq> CHR ''0''
        \<and> sexagesimal gs < 2 ^ (bits - 1) \<longrightarrow>
        resolve_int (join gs) bits = Ok (int (sexagesimal gs)))
   \<and> (CHR '':'' \<in> set z \<longrightarrow> (\<exists>e. resolve_int (CHR ''0'' # z) bits = Err e))
   \<and> resolve_int ''0b101'' 64 = Ok 5 \<and> resolve_int ''017'' 64 = Ok 15
   \<and> resolve_int ''0x1F'' 64 = Ok 31 \<and> resolve_int ''1:2'' 64 = Ok 62
   \<and> resolve_int ''-10'' 64 = Ok (- 10)
   \<and> resolve_int ''1:100'' 64 = Ok 160"
proof (intro impI conjI)
  assume b: "bits \<in> {8, 16, 32, 64}"
  then have w: "0 < bits" "bits \<le> 64" by auto
  {
    assume "numeral_of 2 b2 \<and> number 2 b2 < 2 ^ (bits - 1)"
    then show "resolve_int (''0b'' @ b2) bits = Ok (int (number 2 b2))"
      using w resolve_int_binary by blast
  }
  {
    assume "numeral_of 16 h16 \<and> number 16 h16 < 2 ^ (bits - 1)"
    then show "resolve_int (''0x'' @ h16) bits = Ok (int (number 16 h16))"
      using w resolve_int_hex by blast
  }
  {
    assume "numeral_of 8 o8 \<and> number 8 o8 < 2 ^ (bits - 1)"
    then show "resolve_int (''0'' @ o8) bits = Ok (int (number 8 o8))"
      using w resolve_int_octal by blast
  }
  {
    assume "numeral_of 10 d10 \<and> hd d10 \<noteq> CHR ''0'' \<and> number 10 d10 < 2 ^ (bits - 1)"
    then show "resolve_int d10 bits = Ok (int (number 10 d10))"
      using w resolve_int_decimal by blast
  }
  {
    assume "2 \<le> length gs \<and> (\<forall>g \<in> set gs. numeral_of 10 g) \<and> hd (hd gs) \<noteq> CHR ''0''
        \<and> sexagesimal gs < 2 ^ (bits - 1)"
    then show "resolve_int (join gs) bits = Ok (int (sexagesimal gs))"
      using w resolve_int_sexagesimal by blast
  }
  {
    assume "CHR '':'' \<in> set z"
    then show "\<exists>e. resolve_int (CHR ''0'' # z) bits = Err e"
      by (rule resolve_int_zero_colon)
  }
qed (simp_all add: int_eval)

theorem C6_base_selection_witness:
  "numeral_of 2 ''101'' \<and> resolve_int ''0b101'' 16 = Ok 5
   \<and> numeral_of 16 ''1F'' \<and> resolve_int ''0x1F'' 16 = Ok 31
   \<and> numeral_of 8 ''17'' \<and> resolve_int ''017'' 16 = Ok 15
   \<and> numeral_of 10 ''10'' \<and> resolve_int ''10'' 16 = Ok 10
   \<and> sexagesimal [''1'', ''100''] = 160 \<and> resolve_int ''1:100'' 16 = Ok 160
   \<and> (\<exists>e. resolve_int ''01:30'' 16 = Err e)"
proof -
  have n: "numeral_of 2 ''101''" "numeral_of 16 ''1F''" "numeral_of 8 ''17''" "numeral_of 10 ''10''"
    "numeral_of 10 ''1''" "numeral_of 10 ''100''"
    by (simp_all add: numeral_of_def digit_in_def digit_val_def)
  have v: "number 2 ''101'' = 5" "number 16 ''1F'' = 31" "number 8 ''17'' = 15" "number 10 ''10'' = 10"
    "number 10 ''1'' = 1" "number 10 ''100'' = 100"
    by (simp_all add: number_def digit_val_def)
  have s: "sexagesimal [''1'', ''100''] = 160"
    by (simp add: sexagesimal_def v lessThan_Suc numeral_2_eq_2)
  show ?thesis
    using n v s
      C6_base_selection [where bits = 16 and ?b2.0 = "''101''" and ?h16.0 = "''1F''" and ?o8.0 = "''17''"
        and ?d10.0 = "''10''" and gs = "[''1'', ''100'']" and z = "''1:30''"]
    by simp
qed

end
